theory Spec2Isabelle
  imports Main "HOL-Library.Word"
begin

section \<open>Strings and byte buffers of the runtime\<close>

text \<open>
  A JavaScript string is a sequence of 16-bit code units, a \<open>Buffer\<close> a sequence of bytes.
  String literals of the source are written \<open>str ''...''\<close>. All comparisons of code units
  and bytes are made on their values as natural numbers (\<open>unat\<close>).
\<close>

type_synonym u16 = "16 word"
type_synonym byte = "8 word"
type_synonym js_string = "u16 list"

definition str :: "string \<Rightarrow> js_string" where
  "str s = map (\<lambda>c. of_nat (of_char c)) s"

subsection \<open>\<open>Buffer.from(s, "utf8")\<close> and \<open>buf.toString("utf8")\<close>\<close>

definition is_high_surrogate :: "u16 \<Rightarrow> bool" where
  "is_high_surrogate u = (0xD800 \<le> unat u \<and> unat u \<le> 0xDBFF)"

definition is_low_surrogate :: "u16 \<Rightarrow> bool" where
  "is_low_surrogate u = (0xDC00 \<le> unat u \<and> unat u \<le> 0xDFFF)"

definition is_surrogate :: "u16 \<Rightarrow> bool" where
  "is_surrogate u = (is_high_surrogate u \<or> is_low_surrogate u)"

text \<open>The UTF-8 bytes of one code point.\<close>

definition utf8_cp :: "nat \<Rightarrow> byte list" where
  "utf8_cp cp =
     (if cp < 0x80 then [of_nat cp]
      else if cp < 0x800 then [of_nat (0xC0 + cp div 0x40), of_nat (0x80 + cp mod 0x40)]
      else if cp < 0x10000 then
        [of_nat (0xE0 + cp div 0x1000), of_nat (0x80 + cp div 0x40 mod 0x40),
         of_nat (0x80 + cp mod 0x40)]
      else
        [of_nat (0xF0 + cp div 0x40000), of_nat (0x80 + cp div 0x1000 mod 0x40),
         of_nat (0x80 + cp div 0x40 mod 0x40), of_nat (0x80 + cp mod 0x40)])"

text \<open>
  A code unit standing alone: a surrogate without its partner is written as U+FFFD
  (bytes EF BF BD), as the runtime does when it encodes a string.
\<close>

definition utf8_unit :: "u16 \<Rightarrow> byte list" where
  "utf8_unit u = (if is_surrogate u then [0xEF, 0xBF, 0xBD] else utf8_cp (unat u))"

definition surrogate_pair_cp :: "u16 \<Rightarrow> u16 \<Rightarrow> nat" where
  "surrogate_pair_cp h l = 0x10000 + (unat h - 0xD800) * 0x400 + (unat l - 0xDC00)"

fun utf8_encode :: "js_string \<Rightarrow> byte list" where
  "utf8_encode [] = []"
| "utf8_encode [u] = utf8_unit u"
| "utf8_encode (u # l # us) =
     (if is_high_surrogate u \<and> is_low_surrogate l
      then utf8_cp (surrogate_pair_cp u l) @ utf8_encode us
      else utf8_unit u @ utf8_encode (l # us))"

definition is_cont :: "byte \<Rightarrow> bool" where
  "is_cont b = (0x80 \<le> unat b \<and> unat b \<le> 0xBF)"

text \<open>
  The allowed second byte after a three-byte or four-byte lead (no overlong forms, no
  surrogates, nothing above U+10FFFF).
\<close>

definition second_ok :: "byte \<Rightarrow> byte \<Rightarrow> bool" where
  "second_ok b0 b1 =
     (let lo = (if unat b0 = 0xE0 then 0xA0 else if unat b0 = 0xF0 then 0x90 else 0x80);
          hi = (if unat b0 = 0xED then 0x9F else if unat b0 = 0xF4 then 0x8F else 0xBF)
      in lo \<le> unat b1 \<and> unat b1 \<le> hi)"

text \<open>
  Decoding to code points; every maximal ill-formed part of the input gives one U+FFFD.
\<close>

fun utf8_decode :: "byte list \<Rightarrow> nat list" where
  "utf8_decode [] = []"
| "utf8_decode (b0 # bs) =
     (if unat b0 < 0x80 then unat b0 # utf8_decode bs
      else if 0xC2 \<le> unat b0 \<and> unat b0 \<le> 0xDF then
        (case bs of
           [] \<Rightarrow> [0xFFFD]
         | b1 # bs1 \<Rightarrow>
             if is_cont b1
             then ((unat b0 - 0xC0) * 0x40 + (unat b1 - 0x80)) # utf8_decode bs1
             else 0xFFFD # utf8_decode bs)
      else if 0xE0 \<le> unat b0 \<and> unat b0 \<le> 0xEF then
        (case bs of
           [] \<Rightarrow> [0xFFFD]
         | b1 # bs1 \<Rightarrow>
             if second_ok b0 b1 then
               (case bs1 of
                  [] \<Rightarrow> [0xFFFD]
                | b2 # bs2 \<Rightarrow>
                    if is_cont b2
                    then ((unat b0 - 0xE0) * 0x1000 + (unat b1 - 0x80) * 0x40
                           + (unat b2 - 0x80)) # utf8_decode bs2
                    else 0xFFFD # utf8_decode bs1)
             else 0xFFFD # utf8_decode bs)
      else if 0xF0 \<le> unat b0 \<and> unat b0 \<le> 0xF4 then
        (case bs of
           [] \<Rightarrow> [0xFFFD]
         | b1 # bs1 \<Rightarrow>
             if second_ok b0 b1 then
               (case bs1 of
                  [] \<Rightarrow> [0xFFFD]
                | b2 # bs2 \<Rightarrow>
                    if is_cont b2 then
                      (case bs2 of
                         [] \<Rightarrow> [0xFFFD]
                       | b3 # bs3 \<Rightarrow>
                           if is_cont b3
                           then ((unat b0 - 0xF0) * 0x40000 + (unat b1 - 0x80) * 0x1000
                                  + (unat b2 - 0x80) * 0x40 + (unat b3 - 0x80))
                                # utf8_decode bs3
                           else 0xFFFD # utf8_decode bs2)
                    else 0xFFFD # utf8_decode bs1)
             else 0xFFFD # utf8_decode bs)
      else 0xFFFD # utf8_decode bs)"

definition utf16_cp :: "nat \<Rightarrow> js_string" where
  "utf16_cp cp =
     (if cp < 0x10000 then [of_nat cp]
      else [of_nat (0xD800 + (cp - 0x10000) div 0x400),
            of_nat (0xDC00 + (cp - 0x10000) mod 0x400)])"

definition utf8_to_string :: "byte list \<Rightarrow> js_string" where
  "utf8_to_string bs = concat (map utf16_cp (utf8_decode bs))"

text \<open>A string in which every surrogate code unit is one half of a pair.\<close>

fun well_formed :: "js_string \<Rightarrow> bool" where
  "well_formed [] = True"
| "well_formed [u] = (\<not> is_surrogate u)"
| "well_formed (u # l # us) =
     (if is_high_surrogate u \<and> is_low_surrogate l then well_formed us
      else \<not> is_surrogate u \<and> well_formed (l # us))"

subsection \<open>\<open>buf.toString("hex")\<close> and \<open>Buffer.from(s, "hex")\<close>\<close>

definition hex_digit :: "nat \<Rightarrow> u16" where
  "hex_digit n = (if n < 10 then of_nat (0x30 + n) else of_nat (0x57 + n))"

definition hex_encode :: "byte list \<Rightarrow> js_string" where
  "hex_encode bs = concat (map (\<lambda>b. [hex_digit (unat b div 16), hex_digit (unat b mod 16)]) bs)"

definition hex_val :: "u16 \<Rightarrow> nat option" where
  "hex_val u =
     (let n = unat u in
      if 0x30 \<le> n \<and> n \<le> 0x39 then Some (n - 0x30)
      else if 0x61 \<le> n \<and> n \<le> 0x66 then Some (n - 0x57)
      else if 0x41 \<le> n \<and> n \<le> 0x46 then Some (n - 0x37)
      else None)"

text \<open>Decoding stops at the first pair that is not two hexadecimal digits.\<close>

fun hex_decode :: "js_string \<Rightarrow> byte list" where
  "hex_decode (a # b # rest) =
     (case (hex_val a, hex_val b) of
        (Some x, Some y) \<Rightarrow> of_nat (16 * x + y) # hex_decode rest
      | _ \<Rightarrow> [])"
| "hex_decode _ = []"

subsection \<open>\<open>buf.toString("base64")\<close>\<close>

definition base64_digit :: "nat \<Rightarrow> u16" where
  "base64_digit n =
     (if n < 26 then of_nat (0x41 + n)
      else if n < 52 then of_nat (0x61 + (n - 26))
      else if n < 62 then of_nat (0x30 + (n - 52))
      else if n = 62 then 0x2B
      else 0x2F)"

fun base64_encode :: "byte list \<Rightarrow> js_string" where
  "base64_encode [] = []"
| "base64_encode [a] =
     [base64_digit (unat a div 4), base64_digit (unat a mod 4 * 16), 0x3D, 0x3D]"
| "base64_encode [a, b] =
     [base64_digit (unat a div 4), base64_digit (unat a mod 4 * 16 + unat b div 16),
      base64_digit (unat b mod 16 * 4), 0x3D]"
| "base64_encode (a # b # c # rest) =
     [base64_digit (unat a div 4), base64_digit (unat a mod 4 * 16 + unat b div 16),
      base64_digit (unat b mod 16 * 4 + unat c div 64), base64_digit (unat c mod 64)]
     @ base64_encode rest"

subsection \<open>String operations used by the webhook\<close>

text \<open>\<open>s.includes(w)\<close>: \<open>w\<close> occurs in \<open>s\<close> as a contiguous part.\<close>

fun starts_with :: "js_string \<Rightarrow> js_string \<Rightarrow> bool" where
  "starts_with s [] = True"
| "starts_with [] (w # ws) = False"
| "starts_with (u # us) (w # ws) = (u = w \<and> starts_with us ws)"

fun str_includes :: "js_string \<Rightarrow> js_string \<Rightarrow> bool" where
  "str_includes [] w = (w = [])"
| "str_includes (u # us) w = (starts_with (u # us) w \<or> str_includes us w)"

text \<open>\<open>s.split(":")\<close> and \<open>components.join(":")\<close>.\<close>

fun split_on :: "u16 \<Rightarrow> js_string \<Rightarrow> js_string list" where
  "split_on c [] = [[]]"
| "split_on c (u # us) =
     (if u = c then [] # split_on c us
      else (case split_on c us of [] \<Rightarrow> [[u]] | x # xs \<Rightarrow> (u # x) # xs))"

fun join_with :: "u16 \<Rightarrow> js_string list \<Rightarrow> js_string" where
  "join_with c [] = []"
| "join_with c [x] = x"
| "join_with c (x # y # ys) = x @ [c] @ join_with c (y # ys)"

text \<open>The characters the regular expression class \<open>\s\<close> matches.\<close>

definition is_space :: "u16 \<Rightarrow> bool" where
  "is_space u =
     (let n = unat u in
      (0x09 \<le> n \<and> n \<le> 0x0D) \<or> n = 0x20 \<or> n = 0xA0 \<or> n = 0x1680
      \<or> (0x2000 \<le> n \<and> n \<le> 0x200A) \<or> n = 0x2028 \<or> n = 0x2029 \<or> n = 0x202F
      \<or> n = 0x205F \<or> n = 0x3000 \<or> n = 0xFEFF)"

text \<open>\<open>s.replace(/\s+/g, "_")\<close>: every maximal run of white space becomes one underscore.\<close>

function replace_ws :: "js_string \<Rightarrow> js_string" where
  "replace_ws [] = []"
| "replace_ws (u # us) =
     (if is_space u then 0x5F # replace_ws (dropWhile is_space us) else u # replace_ws us)"
  by pat_completeness auto
termination
  by (relation "measure length") (auto simp: length_dropWhile_le less_Suc_eq_le)

text \<open>
  \<open>s.toUpperCase()\<close> maps code point by code point, without context. On ASCII it maps
  \<open>a\<close>..\<open>z\<close> to \<open>A\<close>..\<open>Z\<close> and nothing else; what it does to a run of code units
  outside ASCII is the Unicode case mapping, a parameter \<open>up\<close> of the model.
\<close>

definition is_ascii :: "u16 \<Rightarrow> bool" where
  "is_ascii u = (unat u < 0x80)"

definition ascii_upper :: "u16 \<Rightarrow> u16" where
  "ascii_upper u = (if 0x61 \<le> unat u \<and> unat u \<le> 0x7A then u - 0x20 else u)"

function toUpperCase :: "(js_string \<Rightarrow> js_string) \<Rightarrow> js_string \<Rightarrow> js_string" where
  "toUpperCase up [] = []"
| "toUpperCase up (u # us) =
     (if is_ascii u then ascii_upper u # toUpperCase up us
      else up (u # takeWhile (\<lambda>v. \<not> is_ascii v) us)
           @ toUpperCase up (dropWhile (\<lambda>v. \<not> is_ascii v) us))"
  by pat_completeness auto
termination
  by (relation "measure (\<lambda>(up, s). length s)") (auto simp: length_dropWhile_le less_Suc_eq_le)


text \<open>
  \<open>String(n)\<close> for an integral number of magnitude below \<open>10\<^sup>2\<^sup>1\<close>: its decimal
  digits. From \<open>10\<^sup>2\<^sup>1\<close> on the language writes an exponent; that notation is not
  modelled.
\<close>

function decimal_digits :: "nat \<Rightarrow> js_string" where
  "decimal_digits n =
     (if n < 10 then [of_nat (0x30 + n)]
      else decimal_digits (n div 10) @ [of_nat (0x30 + n mod 10)])"
  by pat_completeness auto
termination
  by (relation "measure id") auto

definition String_number :: "int \<Rightarrow> js_string" where
  "String_number n = (if n < 0 then 0x2D # decimal_digits (nat (- n)) else decimal_digits (nat n))"

text \<open>
  Truthiness of an optional string, and \<open>a || b\<close> on optional strings: \<open>undefined\<close>
  and the empty string are falsy.
\<close>

definition truthy :: "js_string option \<Rightarrow> bool" where
  "truthy a = (case a of None \<Rightarrow> False | Some s \<Rightarrow> s \<noteq> [])"

definition js_or :: "js_string option \<Rightarrow> js_string option \<Rightarrow> js_string option" where
  "js_or a b = (if truthy a then a else b)"

definition or_default :: "js_string option \<Rightarrow> js_string \<Rightarrow> js_string" where
  "or_default a d = (case a of None \<Rightarrow> d | Some s \<Rightarrow> if s = [] then d else s)"

section \<open>Dates\<close>

text \<open>
  A \<open>Date\<close> holds a time value, the milliseconds since 1970-01-01T00:00:00Z, or is
  invalid; it keeps no offset. The UTC getters follow the language definition's time
  functions; on an invalid date they return \<open>NaN\<close>.
\<close>

datatype js_date = Date int | Invalid_Date

datatype number = Num int | NaN

definition Day :: "int \<Rightarrow> int" where
  "Day t = t div 86400000"

definition DayFromYear :: "int \<Rightarrow> int" where
  "DayFromYear y =
     365 * (y - 1970) + (y - 1969) div 4 - (y - 1901) div 100 + (y - 1601) div 400"

text \<open>
  The year of a day number: the largest \<open>y\<close> with \<open>DayFromYear y \<le> d\<close>, found from
  an estimate that is off by at most one.
\<close>

definition YearFromDay :: "int \<Rightarrow> int" where
  "YearFromDay d =
     (let y = 1970 + (400 * d) div 146097 in
      if d < DayFromYear y then y - 1
      else if DayFromYear (y + 1) \<le> d then y + 1
      else y)"

definition YearFromTime :: "int \<Rightarrow> int" where
  "YearFromTime t = YearFromDay (Day t)"

text \<open>One in a leap year (a year of 366 days), zero otherwise.\<close>

definition leap_year :: "int \<Rightarrow> int" where
  "leap_year y =
     (if y mod 4 \<noteq> 0 then 0 else if y mod 100 \<noteq> 0 then 1 else if y mod 400 \<noteq> 0 then 0 else 1)"

definition InLeapYear :: "int \<Rightarrow> int" where
  "InLeapYear t = leap_year (YearFromTime t)"

definition DayWithinYear :: "int \<Rightarrow> int" where
  "DayWithinYear t = Day t - DayFromYear (YearFromTime t)"

definition MonthFromTime :: "int \<Rightarrow> int" where
  "MonthFromTime t =
     (let d = DayWithinYear t; l = InLeapYear t in
      if d < 31 then 0
      else if d < 59 + l then 1
      else if d < 90 + l then 2
      else if d < 120 + l then 3
      else if d < 151 + l then 4
      else if d < 181 + l then 5
      else if d < 212 + l then 6
      else if d < 243 + l then 7
      else if d < 273 + l then 8
      else if d < 304 + l then 9
      else if d < 334 + l then 10
      else 11)"

definition DateFromTime :: "int \<Rightarrow> int" where
  "DateFromTime t =
     (let d = DayWithinYear t; l = InLeapYear t; m = MonthFromTime t in
      if m = 0 then d + 1
      else if m = 1 then d - 30
      else if m = 2 then d - 58 - l
      else if m = 3 then d - 89 - l
      else if m = 4 then d - 119 - l
      else if m = 5 then d - 150 - l
      else if m = 6 then d - 180 - l
      else if m = 7 then d - 211 - l
      else if m = 8 then d - 242 - l
      else if m = 9 then d - 272 - l
      else if m = 10 then d - 303 - l
      else d - 333 - l)"

definition HourFromTime :: "int \<Rightarrow> int" where
  "HourFromTime t = (t div 3600000) mod 24"

definition MinFromTime :: "int \<Rightarrow> int" where
  "MinFromTime t = (t div 60000) mod 60"

fun getUTCFullYear :: "js_date \<Rightarrow> number" where
  "getUTCFullYear (Date t) = Num (YearFromTime t)"
| "getUTCFullYear Invalid_Date = NaN"

fun getUTCMonth :: "js_date \<Rightarrow> number" where
  "getUTCMonth (Date t) = Num (MonthFromTime t)"
| "getUTCMonth Invalid_Date = NaN"

fun getUTCDate :: "js_date \<Rightarrow> number" where
  "getUTCDate (Date t) = Num (DateFromTime t)"
| "getUTCDate Invalid_Date = NaN"

fun getUTCHours :: "js_date \<Rightarrow> number" where
  "getUTCHours (Date t) = Num (HourFromTime t)"
| "getUTCHours Invalid_Date = NaN"

fun getUTCMinutes :: "js_date \<Rightarrow> number" where
  "getUTCMinutes (Date t) = Num (MinFromTime t)"
| "getUTCMinutes Invalid_Date = NaN"

fun plus_number :: "number \<Rightarrow> int \<Rightarrow> number" where
  "plus_number (Num n) k = Num (n + k)"
| "plus_number NaN k = NaN"

text \<open>
  The time value of a UTC civil date and time (\<open>Date.UTC\<close> with a one-based month),
  and of a civil date and time written with an offset of \<open>off\<close> minutes east of UTC.
\<close>

definition days_before_month :: "int \<Rightarrow> int \<Rightarrow> int" where
  "days_before_month y m =
     (let l = leap_year y in
      if m = 1 then 0
      else if m = 2 then 31
      else if m = 3 then 59 + l
      else if m = 4 then 90 + l
      else if m = 5 then 120 + l
      else if m = 6 then 151 + l
      else if m = 7 then 181 + l
      else if m = 8 then 212 + l
      else if m = 9 then 243 + l
      else if m = 10 then 273 + l
      else if m = 11 then 304 + l
      else 334 + l)"

definition utc_time :: "int \<Rightarrow> int \<Rightarrow> int \<Rightarrow> int \<Rightarrow> int \<Rightarrow> int \<Rightarrow> int \<Rightarrow> int" where
  "utc_time y m d h mi s ms =
     (DayFromYear y + days_before_month y m + (d - 1)) * 86400000
     + h * 3600000 + mi * 60000 + s * 1000 + ms"

definition days_in_month :: "int \<Rightarrow> int \<Rightarrow> int" where
  "days_in_month y m =
     (if m = 2 then 28 + leap_year y
      else if m = 4 \<or> m = 6 \<or> m = 9 \<or> m = 11 then 30
      else 31)"

text \<open>A civil date and time of the Gregorian calendar.\<close>

definition valid_civil :: "int \<Rightarrow> int \<Rightarrow> int \<Rightarrow> int \<Rightarrow> int \<Rightarrow> int \<Rightarrow> int \<Rightarrow> bool" where
  "valid_civil y m d h mi s ms =
     (1 \<le> m \<and> m \<le> 12 \<and> 1 \<le> d \<and> d \<le> days_in_month y m \<and> 0 \<le> h \<and> h < 24
      \<and> 0 \<le> mi \<and> mi < 60 \<and> 0 \<le> s \<and> s < 60 \<and> 0 \<le> ms \<and> ms < 1000)"

definition time_at_offset ::
  "int \<Rightarrow> int \<Rightarrow> int \<Rightarrow> int \<Rightarrow> int \<Rightarrow> int \<Rightarrow> int \<Rightarrow> int \<Rightarrow> int" where
  "time_at_offset y m d h mi s ms off = utc_time y m d h mi s ms - off * 60000"


section \<open>Errors, effects and the platform\<close>

text \<open>
  A thrown value. \<open>Error\<close> is \<open>new Error(message)\<close> of the source; the other two are
  the errors of the libraries: the validation error the calendar library reports and
  the \<open>TypeError\<close> that a rejected \<open>fetch\<close> or a refused argument carries.
\<close>

datatype js_error = Error js_string | ValidationError js_string | TypeError js_string

record person =
  name :: "js_string option"
  email :: js_string

datatype string_or_number = S js_string | N int

text \<open>The type \<open>BookingPayload\<close>; an optional field that is absent is \<open>None\<close>.\<close>

record booking_payload =
  title :: "js_string option"
  startTime :: "js_string option"
  endTime :: "js_string option"
  attendees :: "person list option"
  attendeesList :: "person list option"
  organizer :: "person option"
  hostEmail :: "js_string option"
  hostName :: "js_string option"
  organizerName :: "js_string option"
  location :: "js_string option"
  meetingUrl :: "js_string option"
  videoCallUrl :: "js_string option"
  conferenceUrl :: "js_string option"
  bookingUid :: "js_string option"
  uid :: "js_string option"
  bookingId :: "string_or_number option"
  description :: "js_string option"
  bookingUrl :: "js_string option"
  rescheduleUrl :: "js_string option"
  cancelUrl :: "js_string option"
  iCalSequence :: "int option"
  iCalUID :: "js_string option"

text \<open>The type \<open>WebhookPayload\<close>: the booking fields and the envelope's own.\<close>

record webhook_payload = booking_payload +
  triggerEvent :: "js_string option"
  event :: "js_string option"
  type :: "js_string option"
  payload :: "booking_payload option"

datatype trigger_type = BOOKING_CREATED | BOOKING_RESCHEDULED | BOOKING_CANCELLED | Unknown

datatype event_status = TENTATIVE | CONFIRMED | CANCELLED

datatype ics_method = REQUEST | CANCEL

datatype part_stat = ACCEPTED | DECLINED

datatype busy_status = FREE | BUSY

text \<open>
  The type \<open>WebhookIcsParams\<close> (fields \<open>uid\<close>, \<open>title\<close>, \<open>description\<close>, \<open>start\<close>,
  \<open>end\<close>, \<open>organizer\<close>, \<open>attendee\<close>, \<open>location\<close>, \<open>sequence\<close>, \<open>status\<close>,
  \<open>method\<close>, here with the prefix \<open>ics_\<close>).
\<close>

record webhook_ics_params =
  ics_uid :: js_string
  ics_title :: js_string
  ics_description :: "js_string option"
  ics_start :: js_date
  ics_end :: js_date
  ics_organizer :: person
  ics_attendee :: person
  ics_location :: "js_string option"
  ics_sequence :: "int option"
  ics_status :: event_status
  ics_method :: ics_method

text \<open>The object \<open>buildIcsString\<close> hands to \<open>createEvent\<close> (fields with the prefix \<open>ev_\<close>).\<close>

record ics_attendee =
  at_name :: js_string
  at_email :: js_string
  at_partstat :: part_stat
  at_role :: js_string
  at_rsvp :: bool

record event_attributes =
  ev_uid :: js_string
  ev_sequence :: int
  ev_start :: "number list"
  ev_end :: "number list"
  ev_startInputType :: js_string
  ev_productId :: js_string
  ev_title :: js_string
  ev_description :: "js_string option"
  ev_organizer_name :: js_string
  ev_organizer_email :: js_string
  ev_attendees :: "ics_attendee list"
  ev_location :: "js_string option"
  ev_method :: ics_method
  ev_status :: event_status
  ev_busyStatus :: busy_status

text \<open>What \<open>createEvent\<close> returns: \<open>{ error, value }\<close>.\<close>

record create_event_result =
  ce_error :: "js_error option"
  ce_value :: "js_string option"

text \<open>The types of the email wrapper.\<close>

record postmark_attachment =
  Name :: js_string
  Content :: js_string
  ContentType :: js_string

text \<open>
  The HTML of an email is a fixed template around interpolated values; the model keeps
  the template's heading and the values in their order, an empty interpolation as
  \<open>None\<close>.
\<close>

record html_body =
  html_heading :: js_string
  html_title :: js_string
  html_when :: js_string
  html_where :: "js_string option"
  html_with :: js_string
  html_link :: "js_string option"

record send_email_params =
  sp_from :: js_string
  sp_to :: js_string
  sp_subject :: js_string
  sp_htmlBody :: html_body
  sp_textBody :: "js_string option"
  sp_icsContent :: "js_string option"
  sp_icsMethod :: "ics_method option"

record postmark_response =
  MessageID :: "js_string option"
  ErrorCode :: "int option"
  Message :: "js_string option"

record postmark_message =
  From :: js_string
  To :: js_string
  Subject :: js_string
  HtmlBody :: html_body
  MessageStream :: js_string
  TextBody :: "js_string option"
  Attachments :: "postmark_attachment list option"

text \<open>The call \<open>fetch(url, { method, headers, body })\<close> and its response.\<close>

record fetch_request =
  fr_url :: js_string
  fr_method :: js_string
  fr_token :: js_string
  fr_content_type :: js_string
  fr_accept :: js_string
  fr_body :: postmark_message

record fetch_response =
  resp_ok :: bool
  resp_status :: nat
  resp_json :: "postmark_response option"

text \<open>What a request does to the world, in order.\<close>

datatype effect =
    ConsoleError js_string "js_error option"
  | ConsoleLog js_string
  | JsonParse js_string
  | CreateEvent event_attributes
  | Fetch fetch_request

text \<open>
  The functions of the runtime and of the libraries that the code calls and that are
  not code of this repository: parameters of the model. \<open>JSON_parse\<close> gives \<open>None\<close>
  where \<open>JSON.parse\<close> throws, and otherwise a value of the type the code declares for
  the event, \<open>WebhookPayload\<close>. Console output of the encryption functions is not
  modelled.
\<close>

record platform =
  upper_nonascii :: "js_string \<Rightarrow> js_string"
  hmac_sha256 :: "byte list \<Rightarrow> byte list \<Rightarrow> byte list"
  JSON_parse :: "js_string \<Rightarrow> webhook_payload option"
  JSON_stringify :: "postmark_response \<Rightarrow> js_string"
  new_Date :: "js_string \<Rightarrow> js_date"
  toLocaleString :: "js_date \<Rightarrow> js_string"
  createEvent :: "event_attributes \<Rightarrow> create_event_result"
  fetch :: "fetch_request \<Rightarrow> js_error + fetch_response"
  randomUUID :: js_string

text \<open>\<open>process.env\<close>.\<close>

record env =
  CAL_WEBHOOK_SECRET :: "js_string option"
  POSTMARK_SERVER_API_TOKEN :: "js_string option"
  POSTMARK_FROM_EMAIL :: "js_string option"


text \<open>
  A computation that may throw and that leaves effects behind: its outcome (\<open>Inl\<close> the
  thrown error) and the effects up to the return or the throw.
\<close>

type_synonym 'a io = "(js_error + 'a) \<times> effect list"

section \<open>The calendar invite builder (\<open>ics-builder.ts\<close>)\<close>

definition toDateArray :: "js_date \<Rightarrow> number list" where
  "toDateArray date =
     [getUTCFullYear date, plus_number (getUTCMonth date) 1, getUTCDate date,
      getUTCHours date, getUTCMinutes date]"

definition ics_event_attributes :: "webhook_ics_params \<Rightarrow> event_attributes" where
  "ics_event_attributes params =
     (let partstat = (if ics_status params = CANCELLED then DECLINED else ACCEPTED);
          busyStatus = (if ics_status params = CANCELLED then FREE else BUSY)
      in \<lparr> ev_uid = ics_uid params,
           ev_sequence = (case ics_sequence params of None \<Rightarrow> 0 | Some n \<Rightarrow> n),
           ev_start = toDateArray (ics_start params),
           ev_end = toDateArray (ics_end params),
           ev_startInputType = str ''utc'',
           ev_productId = str ''calcom/webhook-ics'',
           ev_title = ics_title params,
           ev_description = ics_description params,
           ev_organizer_name = or_default (name (ics_organizer params)) (str ''Organizer''),
           ev_organizer_email = email (ics_organizer params),
           ev_attendees =
             [\<lparr> at_name = or_default (name (ics_attendee params)) (str ''Attendee''),
                at_email = email (ics_attendee params),
                at_partstat = partstat,
                at_role = str ''REQ-PARTICIPANT'',
                at_rsvp = True \<rparr>],
           ev_location = ics_location params,
           ev_method = ics_method params,
           ev_status = ics_status params,
           ev_busyStatus = busyStatus \<rparr>)"

definition buildIcsString :: "platform \<Rightarrow> webhook_ics_params \<Rightarrow> js_string io" where
  "buildIcsString pf params =
     (let attrs = ics_event_attributes params;
          r = createEvent pf attrs
      in case ce_error r of
           Some e \<Rightarrow> (Inl e, [CreateEvent attrs])
         | None \<Rightarrow> (Inr (or_default (ce_value r) []), [CreateEvent attrs]))"

section \<open>The email wrapper (\<open>postmark.ts\<close>)\<close>

fun method_name :: "ics_method \<Rightarrow> js_string" where
  "method_name REQUEST = str ''REQUEST''"
| "method_name CANCEL = str ''CANCEL''"

definition calendar_content_type :: "ics_method \<Rightarrow> js_string" where
  "calendar_content_type m =
     str ''text/calendar; method='' @ method_name m @ str ''; charset='' @ [0x22]
     @ str ''utf-8'' @ [0x22]"

definition postmark_attachments :: "send_email_params \<Rightarrow> postmark_attachment list" where
  "postmark_attachments params =
     (if truthy (sp_icsContent params) then
        (let m = (case sp_icsMethod params of None \<Rightarrow> REQUEST | Some m \<Rightarrow> m) in
         [\<lparr> Name = str ''invite.ics'',
            Content = base64_encode (utf8_encode (the (sp_icsContent params))),
            ContentType = calendar_content_type m \<rparr>])
      else [])"

definition postmark_message_of :: "send_email_params \<Rightarrow> postmark_message" where
  "postmark_message_of params =
     (let attachments = postmark_attachments params in
      \<lparr> From = sp_from params,
        To = sp_to params,
        Subject = sp_subject params,
        HtmlBody = sp_htmlBody params,
        MessageStream = str ''outbound'',
        TextBody = (if truthy (sp_textBody params) then sp_textBody params else None),
        Attachments = (if length attachments > 0 then Some attachments else None) \<rparr>)"

definition send_failed_message :: "platform \<Rightarrow> nat \<Rightarrow> postmark_response \<Rightarrow> js_string" where
  "send_failed_message pf st data =
     str ''Postmark send failed: '' @ String_number (int st) @ str '' - ''
     @ (if truthy (Message data) then the (Message data) else JSON_stringify pf data)"

definition sendPostmarkEmail :: "platform \<Rightarrow> env \<Rightarrow> send_email_params \<Rightarrow> postmark_response io" where
  "sendPostmarkEmail pf ev params =
     (if \<not> truthy (POSTMARK_SERVER_API_TOKEN ev) then
        (Inl (Error (str ''Missing POSTMARK_SERVER_API_TOKEN environment variable'')), [])
      else
        (let request =
               \<lparr> fr_url = str ''https://api.postmarkapp.com/email'',
                 fr_method = str ''POST'',
                 fr_token = the (POSTMARK_SERVER_API_TOKEN ev),
                 fr_content_type = str ''application/json'',
                 fr_accept = str ''application/json'',
                 fr_body = postmark_message_of params \<rparr>
         in case fetch pf request of
              Inl e \<Rightarrow> (Inl e, [Fetch request])
            | Inr response \<Rightarrow>
                (let data = (case resp_json response of
                               None \<Rightarrow> \<lparr> MessageID = None, ErrorCode = None, Message = None \<rparr>
                             | Some d \<Rightarrow> d)
                 in if \<not> resp_ok response
                    then (Inl (Error (send_failed_message pf (resp_status response) data)),
                          [Fetch request])
                    else (Inr data, [Fetch request]))))"


section \<open>The webhook receiver\<close>

record request =
  req_method :: js_string
  x_cal_signature_256 :: "js_string option"
  chunks :: "byte list list"

datatype response_body =
    ErrorBody js_string
  | IgnoredBody "js_string option"
  | SkippedBody js_string
  | HandledBody trigger_type

record response =
  status :: nat
  json :: response_body

definition timingSafeEqual :: "js_string \<Rightarrow> js_string \<Rightarrow> bool" where
  "timingSafeEqual a b =
     (let aBuf = utf8_encode a; bBuf = utf8_encode b in
      if length aBuf \<noteq> length bBuf then False else aBuf = bBuf)"

definition readRawBody :: "request \<Rightarrow> js_string" where
  "readRawBody req = utf8_to_string (concat (chunks req))"

definition formatDateTime :: "platform \<Rightarrow> js_date \<Rightarrow> js_string" where
  "formatDateTime pf date = toLocaleString pf date"

definition normalizeTrigger :: "platform \<Rightarrow> js_string option \<Rightarrow> trigger_type" where
  "normalizeTrigger pf trigger =
     (if \<not> truthy trigger then Unknown
      else
        (let t = replace_ws (toUpperCase (upper_nonascii pf) (the trigger)) in
         if str_includes t (str ''CREATED'') \<or> t = str ''BOOKING_CREATED''
           then BOOKING_CREATED
         else if str_includes t (str ''RESCHEDULED'') \<or> t = str ''BOOKING_RESCHEDULED''
           then BOOKING_RESCHEDULED
         else if str_includes t (str ''CANCEL'') \<or> t = str ''BOOKING_CANCELLED''
           then BOOKING_CANCELLED
         else Unknown))"

definition buildLocationHtml :: "js_string \<Rightarrow> js_string option" where
  "buildLocationHtml loc = (if loc = [] then None else Some loc)"

definition buildCancelLinkHtml :: "js_string option \<Rightarrow> js_string option" where
  "buildCancelLinkHtml url = (if \<not> truthy url then None else url)"

definition buildRescheduleLinkHtml :: "js_string option \<Rightarrow> js_string option" where
  "buildRescheduleLinkHtml url = (if \<not> truthy url then None else url)"

text \<open>
  A number of the language is an IEEE 754 double. The sequence of a booking is modelled
  as a number whose value is an integer: an integer of magnitude at most \<open>2\<^sup>5\<^sup>3\<close>, or
  beyond that an even integer of magnitude at most \<open>2\<^sup>5\<^sup>4\<close>, a multiple of four of
  magnitude at most \<open>2\<^sup>5\<^sup>5\<close>, and so on. \<open>js_plus_one n\<close> is \<open>n + 1\<close> of the language on
  such a number: the sum rounded to the nearest double, and to the one with the even
  significand when two are equally near. Up to \<open>2\<^sup>5\<^sup>3\<close> in magnitude the sum is exact;
  between \<open>2\<^sup>5\<^sup>3\<close> and \<open>2\<^sup>5\<^sup>4\<close> it lies half way between \<open>n\<close> and \<open>n + 2\<close>, and the
  significand of \<open>n\<close> is \<open>\<bar>n\<bar> div 2\<close>; from \<open>2\<^sup>5\<^sup>4\<close> on \<open>n\<close> itself is nearest.
\<close>

definition js_plus_one :: "int \<Rightarrow> int" where
  "js_plus_one n =
     (if - 9007199254740992 \<le> n + 1 \<and> n + 1 \<le> 9007199254740992 then n + 1
      else if \<bar>n\<bar> < 18014398509481984 then (if even (n div 2) then n else n + 2)
      else n)"

definition handleBookingCreated ::
  "platform \<Rightarrow> env \<Rightarrow> booking_payload \<Rightarrow> js_date \<Rightarrow> js_date \<Rightarrow> person \<Rightarrow> js_string
   \<Rightarrow> js_string option \<Rightarrow> js_string \<Rightarrow> js_string \<Rightarrow> int \<Rightarrow> js_string \<Rightarrow> unit io" where
  "handleBookingCreated pf ev pl startT endT attendee hostE hostN loc bUid sequence from =
     (case buildIcsString pf
             \<lparr> ics_uid = bUid,
               ics_title = or_default (title pl) (str ''Meeting''),
               ics_description = description pl,
               ics_start = startT,
               ics_end = endT,
               ics_organizer = \<lparr> name = hostN, email = hostE \<rparr>,
               ics_attendee = \<lparr> name = name attendee, email = email attendee \<rparr>,
               ics_location = Some loc,
               ics_sequence = Some sequence,
               ics_status = CONFIRMED,
               ics_method = REQUEST \<rparr> of
        (Inl e, effs) \<Rightarrow> (Inl e, effs)
      | (Inr icsContent, effs) \<Rightarrow>
          (let htmlBody =
                 \<lparr> html_heading = str ''Your meeting is confirmed'',
                   html_title = or_default (title pl) (str ''Meeting''),
                   html_when = formatDateTime pf startT,
                   html_where = buildLocationHtml loc,
                   html_with = or_default hostN hostE,
                   html_link = buildCancelLinkHtml (cancelUrl pl) \<rparr>
           in case sendPostmarkEmail pf ev
                     \<lparr> sp_from = from,
                       sp_to = email attendee,
                       sp_subject = str ''Confirmed: '' @ or_default (title pl) (str ''Meeting''),
                       sp_htmlBody = htmlBody,
                       sp_textBody = None,
                       sp_icsContent = Some icsContent,
                       sp_icsMethod = Some REQUEST \<rparr> of
                (Inl e, effs') \<Rightarrow> (Inl e, effs @ effs')
              | (Inr _, effs') \<Rightarrow>
                  (Inr (),
                   effs @ effs'
                   @ [ConsoleLog (str ''Sent booking confirmation to '' @ email attendee
                                   @ str '' for '' @ bUid)])))"

definition handleBookingRescheduled ::
  "platform \<Rightarrow> env \<Rightarrow> booking_payload \<Rightarrow> js_date \<Rightarrow> js_date \<Rightarrow> person \<Rightarrow> js_string
   \<Rightarrow> js_string option \<Rightarrow> js_string \<Rightarrow> js_string \<Rightarrow> int \<Rightarrow> js_string \<Rightarrow> unit io" where
  "handleBookingRescheduled pf ev pl startT endT attendee hostE hostN loc bUid sequence from =
     (case buildIcsString pf
             \<lparr> ics_uid = bUid,
               ics_title = or_default (title pl) (str ''Meeting''),
               ics_description = description pl,
               ics_start = startT,
               ics_end = endT,
               ics_organizer = \<lparr> name = hostN, email = hostE \<rparr>,
               ics_attendee = \<lparr> name = name attendee, email = email attendee \<rparr>,
               ics_location = Some loc,
               ics_sequence = Some (js_plus_one sequence),
               ics_status = CONFIRMED,
               ics_method = REQUEST \<rparr> of
        (Inl e, effs) \<Rightarrow> (Inl e, effs)
      | (Inr icsContent, effs) \<Rightarrow>
          (let htmlBody =
                 \<lparr> html_heading = str ''Your meeting has been rescheduled'',
                   html_title = or_default (title pl) (str ''Meeting''),
                   html_when = formatDateTime pf startT,
                   html_where = buildLocationHtml loc,
                   html_with = or_default hostN hostE,
                   html_link = buildCancelLinkHtml (cancelUrl pl) \<rparr>
           in case sendPostmarkEmail pf ev
                     \<lparr> sp_from = from,
                       sp_to = email attendee,
                       sp_subject = str ''Rescheduled: '' @ or_default (title pl) (str ''Meeting''),
                       sp_htmlBody = htmlBody,
                       sp_textBody = None,
                       sp_icsContent = Some icsContent,
                       sp_icsMethod = Some REQUEST \<rparr> of
                (Inl e, effs') \<Rightarrow> (Inl e, effs @ effs')
              | (Inr _, effs') \<Rightarrow>
                  (Inr (),
                   effs @ effs'
                   @ [ConsoleLog (str ''Sent reschedule notification to '' @ email attendee
                                   @ str '' for '' @ bUid)])))"

definition handleBookingCancelled ::
  "platform \<Rightarrow> env \<Rightarrow> booking_payload \<Rightarrow> js_date \<Rightarrow> js_date \<Rightarrow> person \<Rightarrow> js_string
   \<Rightarrow> js_string option \<Rightarrow> js_string \<Rightarrow> js_string \<Rightarrow> int \<Rightarrow> js_string \<Rightarrow> unit io" where
  "handleBookingCancelled pf ev pl startT endT attendee hostE hostN loc bUid sequence from =
     (case buildIcsString pf
             \<lparr> ics_uid = bUid,
               ics_title = or_default (title pl) (str ''Meeting''),
               ics_description = description pl,
               ics_start = startT,
               ics_end = endT,
               ics_organizer = \<lparr> name = hostN, email = hostE \<rparr>,
               ics_attendee = \<lparr> name = name attendee, email = email attendee \<rparr>,
               ics_location = Some loc,
               ics_sequence = Some (js_plus_one sequence),
               ics_status = CANCELLED,
               ics_method = CANCEL \<rparr> of
        (Inl e, effs) \<Rightarrow> (Inl e, effs)
      | (Inr icsContent, effs) \<Rightarrow>
          (let htmlBody =
                 \<lparr> html_heading = str ''Your meeting has been cancelled'',
                   html_title = or_default (title pl) (str ''Meeting''),
                   html_when = formatDateTime pf startT,
                   html_where = None,
                   html_with = or_default hostN hostE,
                   html_link = buildRescheduleLinkHtml (rescheduleUrl pl) \<rparr>
           in case sendPostmarkEmail pf ev
                     \<lparr> sp_from = from,
                       sp_to = email attendee,
                       sp_subject = str ''Cancelled: '' @ or_default (title pl) (str ''Meeting''),
                       sp_htmlBody = htmlBody,
                       sp_textBody = None,
                       sp_icsContent = Some icsContent,
                       sp_icsMethod = Some CANCEL \<rparr> of
                (Inl e, effs') \<Rightarrow> (Inl e, effs @ effs')
              | (Inr _, effs') \<Rightarrow>
                  (Inr (),
                   effs @ effs'
                   @ [ConsoleLog (str ''Sent cancellation notification to '' @ email attendee
                                   @ str '' for '' @ bUid)])))"

text \<open>\<open>String(payload.bookingId)\<close>: of a missing field it is the text \<open>undefined\<close>.\<close>

definition String_bookingId :: "string_or_number option \<Rightarrow> js_string" where
  "String_bookingId b =
     (case b of None \<Rightarrow> str ''undefined'' | Some (S s) \<Rightarrow> s | Some (N n) \<Rightarrow> String_number n)"

definition extract_bookingUid :: "platform \<Rightarrow> booking_payload \<Rightarrow> js_string" where
  "extract_bookingUid pf pl =
     or_default (js_or (js_or (iCalUID pl) (bookingUid pl)) (uid pl))
       (if String_bookingId (bookingId pl) \<noteq> [] then String_bookingId (bookingId pl)
        else randomUUID pf)"

definition the_trigger :: "webhook_payload \<Rightarrow> js_string option" where
  "the_trigger ev = js_or (js_or (triggerEvent ev) (event ev)) (type ev)"

text \<open>The \<open>try\<close> block of \<open>handler\<close>. \<open>effs\<close> are the effects so far.\<close>

definition try_handlers ::
  "platform \<Rightarrow> env \<Rightarrow> booking_payload \<Rightarrow> trigger_type \<Rightarrow> js_date \<Rightarrow> js_date \<Rightarrow> person
   \<Rightarrow> js_string \<Rightarrow> js_string option \<Rightarrow> js_string \<Rightarrow> js_string \<Rightarrow> int \<Rightarrow> js_string
   \<Rightarrow> effect list \<Rightarrow> response \<times> effect list" where
  "try_handlers pf ev pl trigger startT endT attendee hostE hostN loc bUid sequence from effs =
     (case (if trigger = BOOKING_CREATED then
              handleBookingCreated pf ev pl startT endT attendee hostE hostN loc bUid
                sequence from
            else if trigger = BOOKING_RESCHEDULED then
              handleBookingRescheduled pf ev pl startT endT attendee hostE hostN loc bUid
                sequence from
            else if trigger = BOOKING_CANCELLED then
              handleBookingCancelled pf ev pl startT endT attendee hostE hostN loc bUid
                sequence from
            else (Inr (), [])) of
        (Inr _, effs') \<Rightarrow> (\<lparr> status = 200, json = HandledBody trigger \<rparr>, effs @ effs')
      | (Inl e, effs') \<Rightarrow>
          (\<lparr> status = 500, json = ErrorBody (str ''Failed to process webhook'') \<rparr>,
           effs @ effs' @ [ConsoleError (str ''Error processing webhook:'') (Some e)]))"

text \<open>
  The rest of \<open>handler\<close> once the trigger is known: the extraction of the booking
  details, then the \<open>try\<close> block.
\<close>

definition dispatch ::
  "platform \<Rightarrow> env \<Rightarrow> webhook_payload \<Rightarrow> trigger_type \<Rightarrow> effect list
   \<Rightarrow> response \<times> effect list" where
  "dispatch pf ev evt trigger effs =
     (let pl = (case payload evt of Some p \<Rightarrow> p | None \<Rightarrow> booking_payload.truncate evt);
          startT = (if truthy (startTime pl) then Some (new_Date pf (the (startTime pl))) else None);
          endT = (if truthy (endTime pl) then Some (new_Date pf (the (endTime pl))) else None)
      in
      if startT = None \<or> endT = None then
        (\<lparr> status = 200, json = SkippedBody (str ''missing start/end time'') \<rparr>, effs)
      else
        (let atts = (case attendees pl of
                       Some l \<Rightarrow> l
                     | None \<Rightarrow> (case attendeesList pl of Some l \<Rightarrow> l | None \<Rightarrow> []))
         in case atts of
              [] \<Rightarrow> (\<lparr> status = 200, json = SkippedBody (str ''no attendee email'') \<rparr>, effs)
            | attendee # _ \<Rightarrow>
                if email attendee = [] then
                  (\<lparr> status = 200, json = SkippedBody (str ''no attendee email'') \<rparr>, effs)
                else
                  (let hostE = js_or (hostEmail pl) (map_option email (organizer pl));
                       hostN = js_or (js_or (organizerName pl) (hostName pl))
                                 (case organizer pl of None \<Rightarrow> None | Some p \<Rightarrow> name p)
                   in
                   if \<not> truthy hostE then
                     (\<lparr> status = 200, json = SkippedBody (str ''no host email'') \<rparr>, effs)
                   else
                     (let loc = or_default
                                  (js_or (js_or (js_or (location pl) (meetingUrl pl))
                                            (videoCallUrl pl)) (conferenceUrl pl)) [];
                          bUid = extract_bookingUid pf pl;
                          sequence = (case iCalSequence pl of None \<Rightarrow> 0 | Some n \<Rightarrow> n)
                      in
                      if \<not> truthy (POSTMARK_FROM_EMAIL ev) then
                        (\<lparr> status = 500, json = ErrorBody (str ''Server configuration error'') \<rparr>,
                         effs @ [ConsoleError (str ''POSTMARK_FROM_EMAIL not configured'') None])
                      else
                        try_handlers pf ev pl trigger (the startT) (the endT) attendee
                          (the hostE) hostN loc bUid sequence (the (POSTMARK_FROM_EMAIL ev))
                          effs))))"

definition computedSig :: "platform \<Rightarrow> js_string \<Rightarrow> js_string \<Rightarrow> js_string" where
  "computedSig pf secret rawBody =
     hex_encode (hmac_sha256 pf (utf8_encode secret) (utf8_encode rawBody))"

definition handler :: "platform \<Rightarrow> env \<Rightarrow> request \<Rightarrow> response \<times> effect list" where
  "handler pf ev req =
     (if req_method req \<noteq> str ''POST'' then
        (\<lparr> status = 405, json = ErrorBody (str ''Method Not Allowed'') \<rparr>, [])
      else if \<not> truthy (CAL_WEBHOOK_SECRET ev) then
        (\<lparr> status = 500, json = ErrorBody (str ''Server configuration error'') \<rparr>,
         [ConsoleError (str ''CAL_WEBHOOK_SECRET not configured'') None])
      else
        (let secret = the (CAL_WEBHOOK_SECRET ev);
             rawBody = readRawBody req;
             receivedSig = or_default (x_cal_signature_256 req) [];
             sig = computedSig pf secret rawBody
         in
         if receivedSig = [] \<or> \<not> timingSafeEqual receivedSig sig then
           (\<lparr> status = 401, json = ErrorBody (str ''Invalid signature'') \<rparr>,
            [ConsoleError (str ''Invalid webhook signature'') None])
         else
           (case JSON_parse pf rawBody of
              None \<Rightarrow>
                (\<lparr> status = 400, json = ErrorBody (str ''Invalid JSON'') \<rparr>, [JsonParse rawBody])
            | Some evt \<Rightarrow>
                (let trigger = normalizeTrigger pf (the_trigger evt) in
                 if trigger = Unknown then
                   (\<lparr> status = 200, json = IgnoredBody (the_trigger evt) \<rparr>, [JsonParse rawBody])
                 else dispatch pf ev evt trigger [JsonParse rawBody]))))"


section \<open>Symmetric encryption (\<open>crypto.ts\<close>)\<close>

text \<open>
  The functions of \<open>node:crypto\<close> and \<open>Buffer\<close> that the two functions call:
  \<open>Buffer.from(key, "base64")\<close>, \<open>crypto.randomBytes(n)\<close>, and the cipher and the
  decipher of \<open>aes256\<close> for a key and an initialisation vector, each taking the whole
  input to the whole output or throwing.
\<close>

record crypto_platform =
  base64_decode :: "js_string \<Rightarrow> byte list"
  randomBytes :: "nat \<Rightarrow> byte list"
  cipher :: "byte list \<Rightarrow> byte list \<Rightarrow> byte list \<Rightarrow> js_error + byte list"
  decipher :: "byte list \<Rightarrow> byte list \<Rightarrow> byte list \<Rightarrow> js_error + byte list"

definition IV_LENGTH :: nat where
  "IV_LENGTH = 16"

definition invalid_key_length :: "nat \<Rightarrow> js_error" where
  "invalid_key_length n =
     Error (str ''Invalid key length: expected 32 bytes, got '' @ String_number (int n))"

definition symmetricEncrypt :: "crypto_platform \<Rightarrow> js_string \<Rightarrow> js_string \<Rightarrow> js_error + js_string" where
  "symmetricEncrypt cp text key =
     (let k = base64_decode cp key in
      if length k \<noteq> 32 then Inl (invalid_key_length (length k))
      else
        (let iv = randomBytes cp IV_LENGTH in
         case cipher cp k iv (utf8_encode text) of
           Inl e \<Rightarrow> Inl e
         | Inr ciphered \<Rightarrow> Inr (hex_encode iv @ str '':'' @ hex_encode ciphered)))"

text \<open>
  \<open>Buffer.from(s, "hex")\<close> reads the pairs of hexadecimal digits at the front of \<open>s\<close> and
  drops what follows them. \<open>decipher.update(s, "hex", "utf8")\<close> first refuses a text of
  odd length, with the error \<open>ERR_INVALID_ARG_VALUE\<close>, a \<open>TypeError\<close>; it is reached once
  \<open>createDecipheriv\<close> has accepted the key of 32 bytes and the initialisation vector,
  which \<open>aes256\<close> requires to be of 16 bytes.
\<close>

definition invalid_hex_length :: "nat \<Rightarrow> js_error" where
  "invalid_hex_length n =
     TypeError (str ''The argument '' @ [0x27] @ str ''encoding'' @ [0x27]
                @ str '' is invalid for data of length '' @ String_number (int n)
                @ str ''. Received '' @ [0x27] @ str ''hex'' @ [0x27])"

definition symmetricDecrypt :: "crypto_platform \<Rightarrow> js_string \<Rightarrow> js_string \<Rightarrow> js_error + js_string" where
  "symmetricDecrypt cp text key =
     (let k = base64_decode cp key in
      if length k \<noteq> 32 then Inl (invalid_key_length (length k))
      else
        (let components = split_on 0x3A text;
             iv_from_ciphertext =
               hex_decode (case components of [] \<Rightarrow> [] | first # _ \<Rightarrow> first);
             rest = join_with 0x3A (case components of [] \<Rightarrow> [] | _ # others \<Rightarrow> others)
         in if length iv_from_ciphertext = 16 \<and> odd (length rest)
              then Inl (invalid_hex_length (length rest))
            else
              case decipher cp k iv_from_ciphertext (hex_decode rest) of
                Inl e \<Rightarrow> Inl e
              | Inr deciphered \<Rightarrow> Inr (utf8_to_string deciphered)))"

text \<open>
  The contract of the cipher: under a key of 32 bytes and an initialisation vector of
  16 bytes, encryption succeeds and decryption gives the plain bytes back.
\<close>

definition cipher_inverts :: "crypto_platform \<Rightarrow> bool" where
  "cipher_inverts cp =
     (\<forall>k iv p. length k = 32 \<and> length iv = 16 \<longrightarrow>
        (\<exists>c. cipher cp k iv p = Inr c \<and> decipher cp k iv c = Inr p))"


section \<open>Observations on the effects\<close>

text \<open>
  The invites built, the emails submitted and the bodies parsed among a list of effects.
\<close>

fun built_invites :: "effect list \<Rightarrow> event_attributes list" where
  "built_invites [] = []"
| "built_invites (CreateEvent a # es) = a # built_invites es"
| "built_invites (e # es) = built_invites es"

fun sent_emails :: "effect list \<Rightarrow> fetch_request list" where
  "sent_emails [] = []"
| "sent_emails (Fetch r # es) = r # sent_emails es"
| "sent_emails (e # es) = sent_emails es"

fun parsed_bodies :: "effect list \<Rightarrow> js_string list" where
  "parsed_bodies [] = []"
| "parsed_bodies (JsonParse b # es) = b # parsed_bodies es"
| "parsed_bodies (e # es) = parsed_bodies es"


section \<open>The extracted booking details\<close>

text \<open>
  The parts of a parsed event that the handler extracts, named: the booking object,
  its first attendee, the host's email and name, the location and the sequence.
\<close>

definition booking_of :: "webhook_payload \<Rightarrow> booking_payload" where
  "booking_of evt = (case payload evt of Some p \<Rightarrow> p | None \<Rightarrow> booking_payload.truncate evt)"

definition first_attendee :: "booking_payload \<Rightarrow> person option" where
  "first_attendee pl =
     (case (case attendees pl of
              Some l \<Rightarrow> l
            | None \<Rightarrow> (case attendeesList pl of Some l \<Rightarrow> l | None \<Rightarrow> [])) of
        [] \<Rightarrow> None
      | a # _ \<Rightarrow> Some a)"

definition host_email :: "booking_payload \<Rightarrow> js_string option" where
  "host_email pl = js_or (hostEmail pl) (map_option email (organizer pl))"

definition host_name :: "booking_payload \<Rightarrow> js_string option" where
  "host_name pl =
     js_or (js_or (organizerName pl) (hostName pl))
       (case organizer pl of None \<Rightarrow> None | Some p \<Rightarrow> name p)"

definition location_of :: "booking_payload \<Rightarrow> js_string" where
  "location_of pl =
     or_default (js_or (js_or (js_or (location pl) (meetingUrl pl)) (videoCallUrl pl))
                   (conferenceUrl pl)) []"

definition sequence_of :: "booking_payload \<Rightarrow> int" where
  "sequence_of pl = (case iCalSequence pl of None \<Rightarrow> 0 | Some n \<Rightarrow> n)"

text \<open>
  The trigger text after uppercasing and replacing white space with underscores; of a
  missing trigger it is empty.
\<close>

definition normalised :: "platform \<Rightarrow> js_string option \<Rightarrow> js_string" where
  "normalised pf trigger =
     (case trigger of
        None \<Rightarrow> []
      | Some t \<Rightarrow> replace_ws (toUpperCase (upper_nonascii pf) t))"

text \<open>The invite a recognised trigger asks for, from the extracted details.\<close>

definition invite_params ::
  "trigger_type \<Rightarrow> booking_payload \<Rightarrow> js_date \<Rightarrow> js_date \<Rightarrow> person \<Rightarrow> js_string
   \<Rightarrow> js_string option \<Rightarrow> js_string \<Rightarrow> js_string \<Rightarrow> int \<Rightarrow> webhook_ics_params" where
  "invite_params trigger pl s e a hE hN loc u n =
     \<lparr> ics_uid = u, ics_title = or_default (title pl) (str ''Meeting''),
       ics_description = description pl, ics_start = s, ics_end = e,
       ics_organizer = \<lparr> name = hN, email = hE \<rparr>,
       ics_attendee = \<lparr> name = name a, email = email a \<rparr>,
       ics_location = Some loc,
       ics_sequence = Some (if trigger = BOOKING_CREATED then n else js_plus_one n),
       ics_status = (if trigger = BOOKING_CANCELLED then CANCELLED else CONFIRMED),
       ics_method = (if trigger = BOOKING_CANCELLED then CANCEL else REQUEST) \<rparr>"

text \<open>A required field is missing: start time, end time, first attendee email or host email.\<close>

definition missing_required_field :: "booking_payload \<Rightarrow> bool" where
  "missing_required_field pl =
     (\<not> truthy (startTime pl) \<or> \<not> truthy (endTime pl)
      \<or> \<not> truthy (map_option email (first_attendee pl)) \<or> \<not> truthy (host_email pl))"

definition skip_reasons :: "js_string list" where
  "skip_reasons =
     [str ''missing start/end time'', str ''no attendee email'', str ''no host email'']"

text \<open>
  The request is a POST, the secret is configured, the signature header is present and
  equal to the digest the handler computes, and the body parses to \<open>evt\<close>.
\<close>

definition accepted :: "platform \<Rightarrow> env \<Rightarrow> request \<Rightarrow> webhook_payload \<Rightarrow> bool" where
  "accepted pf ev req evt =
     (req_method req = str ''POST'' \<and> truthy (CAL_WEBHOOK_SECRET ev)
      \<and> truthy (x_cal_signature_256 req)
      \<and> x_cal_signature_256 req
          = Some (computedSig pf (the (CAL_WEBHOOK_SECRET ev)) (readRawBody req))
      \<and> JSON_parse pf (readRawBody req) = Some evt)"


section \<open>Sample inputs\<close>

text \<open>
  Concrete inputs on which the theorems below are evaluated: a platform whose library
  functions answer with given values, an environment, and a signed request. The sample
  digest function returns the key followed by the data.
\<close>

definition sample_Date :: "js_string \<Rightarrow> js_date" where
  "sample_Date s =
     (if s = str ''2024-01-01T15:00:00Z'' then Date 1704121200000
      else if s = str ''2024-01-01T15:30:00Z'' then Date 1704123000000
      else Invalid_Date)"

definition sample_platform ::
  "webhook_payload option \<Rightarrow> create_event_result \<Rightarrow> js_error + fetch_response \<Rightarrow> platform" where
  "sample_platform parsed built answered =
     \<lparr> upper_nonascii = (\<lambda>s. s),
       hmac_sha256 = (\<lambda>k d. k @ d),
       JSON_parse = (\<lambda>b. parsed),
       JSON_stringify = (\<lambda>d. str ''{}''),
       new_Date = sample_Date,
       toLocaleString = (\<lambda>d. str ''Monday, January 1, 2024 at 3:00 PM UTC''),
       createEvent = (\<lambda>a. built),
       fetch = (\<lambda>r. answered),
       randomUUID = str ''123e4567-e89b-42d3-a456-426614174000'' \<rparr>"

definition built_ok :: create_event_result where
  "built_ok = \<lparr> ce_error = None, ce_value = Some (str ''BEGIN:VCALENDAR'') \<rparr>"

definition built_error :: create_event_result where
  "built_error = \<lparr> ce_error = Some (ValidationError (str ''invalid attendee'')), ce_value = None \<rparr>"

definition answered_ok :: "js_error + fetch_response" where
  "answered_ok = Inr \<lparr> resp_ok = True, resp_status = 200, resp_json = None \<rparr>"

definition sample_env :: env where
  "sample_env =
     \<lparr> CAL_WEBHOOK_SECRET = Some (str ''s''),
       POSTMARK_SERVER_API_TOKEN = Some (str ''t''),
       POSTMARK_FROM_EMAIL = Some (str ''from@example.com'') \<rparr>"

text \<open>
  A POST whose body arrives in two chunks, the bytes of \<open>{}\<close>, with the header that the
  sample digest gives for it.
\<close>

definition sample_request :: request where
  "sample_request =
     \<lparr> req_method = str ''POST'', x_cal_signature_256 = Some (str ''737b7d''),
       chunks = [[0x7B], [0x7D]] \<rparr>"

definition empty_booking :: booking_payload where
  "empty_booking =
     \<lparr> title = None, startTime = None, endTime = None, attendees = None,
       attendeesList = None, organizer = None, hostEmail = None, hostName = None,
       organizerName = None, location = None, meetingUrl = None, videoCallUrl = None,
       conferenceUrl = None, bookingUid = None, uid = None, bookingId = None,
       description = None, bookingUrl = None, rescheduleUrl = None, cancelUrl = None,
       iCalSequence = None, iCalUID = None \<rparr>"

text \<open>A booking with every required field and no identifier.\<close>

definition sample_booking :: booking_payload where
  "sample_booking =
     empty_booking
       \<lparr> startTime := Some (str ''2024-01-01T15:00:00Z''),
         endTime := Some (str ''2024-01-01T15:30:00Z''),
         attendees := Some [\<lparr> name = None, email = str ''a@example.com'' \<rparr>],
         hostEmail := Some (str ''h@example.com''),
         iCalSequence := Some 2 \<rparr>"

definition sample_event :: "js_string \<Rightarrow> booking_payload \<Rightarrow> webhook_payload" where
  "sample_event trigger booking =
     booking_payload.extend empty_booking
       \<lparr> triggerEvent = Some trigger, event = None, type = None, payload = Some booking \<rparr>"

definition sample_ics_params :: "event_status \<Rightarrow> webhook_ics_params" where
  "sample_ics_params st =
     \<lparr> ics_uid = str ''uid-1'', ics_title = str ''Meeting'', ics_description = None,
       ics_start = Date 1704121200000, ics_end = Date 1704123000000,
       ics_organizer = \<lparr> name = None, email = str ''h@example.com'' \<rparr>,
       ics_attendee = \<lparr> name = None, email = str ''a@example.com'' \<rparr>,
       ics_location = None, ics_sequence = Some 0, ics_status = st,
       ics_method = (if st = CANCELLED then CANCEL else REQUEST) \<rparr>"

text \<open>
  A sample of \<open>node:crypto\<close>: the decoder knows one key, the 32 zero bytes written in
  base64; the cipher reverses the bytes, and so does the decipher.
\<close>

definition sample_key :: js_string where
  "sample_key = str ''AAAAAAAAAAAAAAAAAAAAAAAAAAAAAAAAAAAAAAAAAAA=''"

definition sample_crypto :: crypto_platform where
  "sample_crypto =
     \<lparr> base64_decode = (\<lambda>k. if k = sample_key then replicate 32 0 else []),
       randomBytes = (\<lambda>n. replicate n 0x2A),
       cipher = (\<lambda>k iv p. Inr (rev p)),
       decipher = (\<lambda>k iv c. Inr (rev c)) \<rparr>"

definition sample_email :: "js_string option \<Rightarrow> ics_method option \<Rightarrow> send_email_params" where
  "sample_email doc m =
     \<lparr> sp_from = str ''from@example.com'', sp_to = str ''a@example.com'',
       sp_subject = str ''Confirmed: Meeting'',
       sp_htmlBody = \<lparr> html_heading = str ''Your meeting is confirmed'',
                        html_title = str ''Meeting'', html_when = str ''Monday'',
                        html_where = None, html_with = str ''h@example.com'',
                        html_link = None \<rparr>,
       sp_textBody = None, sp_icsContent = doc, sp_icsMethod = m \<rparr>"

section \<open>Facts about the encodings\<close>

lemma unat_byte: "n < 256 \<Longrightarrow> unat (of_nat n :: byte) = n"
  by (simp add: unat_of_nat)

lemma unat_u16: "n < 65536 \<Longrightarrow> unat (of_nat n :: u16) = n"
  by (simp add: unat_of_nat)

lemma unat_u16_bound: "unat (u :: u16) < 65536"
  using unsigned_less [of u, where 'a = nat] by simp

lemma unat_byte_bound: "unat (b :: byte) < 256"
  using unsigned_less [of b, where 'a = nat] by simp

lemma utf8_decode_1:
  "unat b0 < 0x80 \<Longrightarrow> utf8_decode (b0 # bs) = unat b0 # utf8_decode bs"
  by simp

lemma utf8_decode_2:
  assumes "unat b0 = 0xC0 + h" "2 \<le> h" "h < 0x20" "unat b1 = 0x80 + l" "l < 0x40"
  shows "utf8_decode (b0 # b1 # bs) = (h * 0x40 + l) # utf8_decode bs"
  using assms by (simp add: is_cont_def)

lemma utf8_decode_3:
  assumes "unat b0 = 0xE0 + h" "h < 0x10" "unat b1 = 0x80 + m" "m < 0x40"
    "unat b2 = 0x80 + l" "l < 0x40" "h = 0 \<Longrightarrow> 0x20 \<le> m" "h = 0xD \<Longrightarrow> m < 0x20"
  shows "utf8_decode (b0 # b1 # b2 # bs) = (h * 0x1000 + m * 0x40 + l) # utf8_decode bs"
proof -
  have s: "second_ok b0 b1"
    using assms by (auto simp: second_ok_def Let_def)
  have c: "is_cont b2" using assms by (simp add: is_cont_def)
  have r: "\<not> unat b0 < 0x80" "\<not> (0xC2 \<le> unat b0 \<and> unat b0 \<le> 0xDF)"
    "0xE0 \<le> unat b0 \<and> unat b0 \<le> 0xEF"
    using assms by simp_all
  show ?thesis
    using assms s c by simp
qed

lemma utf8_decode_4:
  assumes "unat b0 = 0xF0 + h" "h < 5" "unat b1 = 0x80 + m" "m < 0x40"
    "unat b2 = 0x80 + l" "l < 0x40" "unat b3 = 0x80 + k" "k < 0x40"
    "h = 0 \<Longrightarrow> 0x10 \<le> m" "h = 4 \<Longrightarrow> m < 0x10"
  shows "utf8_decode (b0 # b1 # b2 # b3 # bs) =
           (h * 0x40000 + m * 0x1000 + l * 0x40 + k) # utf8_decode bs"
proof -
  have s: "second_ok b0 b1"
    using assms by (auto simp: second_ok_def Let_def)
  have c: "is_cont b2" "is_cont b3" using assms by (simp_all add: is_cont_def)
  have r: "\<not> unat b0 < 0x80" "\<not> (0xC2 \<le> unat b0 \<and> unat b0 \<le> 0xDF)"
    "\<not> (0xE0 \<le> unat b0 \<and> unat b0 \<le> 0xEF)" "0xF0 \<le> unat b0 \<and> unat b0 \<le> 0xF4"
    using assms by simp_all
  show ?thesis
    using assms s c by simp
qed



lemma split64:
  fixes n :: nat
  shows "n div 0x1000 = n div 0x40 div 0x40" "n div 0x40000 = n div 0x1000 div 0x40"
  by (simp_all add: div_mult2_eq [symmetric])

lemma utf8_decode_cp:
  assumes "cp < 0x110000" "\<not> (0xD800 \<le> cp \<and> cp \<le> 0xDFFF)"
  shows "utf8_decode (utf8_cp cp @ bs) = cp # utf8_decode bs"
proof -
  define l where "l = cp mod 0x40"
  define x where "x = cp div 0x40"
  define m where "m = x mod 0x40"
  define y where "y = x div 0x40"
  define k where "k = y mod 0x40"
  define z where "z = y div 0x40"
  have cp: "cp = 0x40 * x + l" "l < 0x40" by (simp_all add: l_def x_def)
  have x: "x = 0x40 * y + m" "m < 0x40" by (simp_all add: m_def y_def)
  have y: "y = 0x40 * z + k" "k < 0x40" by (simp_all add: k_def z_def)
  have d: "cp div 0x40 = x" "cp mod 0x40 = l" "cp div 0x40 mod 0x40 = m"
    "cp div 0x1000 = y" "cp div 0x1000 mod 0x40 = k" "cp div 0x40000 = z"
    by (simp_all add: split64 l_def x_def m_def y_def k_def z_def)
  consider "cp < 0x80" | "0x80 \<le> cp" "cp < 0x800" | "0x800 \<le> cp" "cp < 0x10000"
    | "0x10000 \<le> cp" by linarith
  then show ?thesis
  proof cases
    case 1
    then show ?thesis by (simp add: utf8_cp_def unat_byte)
  next
    case 2
    define b0 :: byte where "b0 = of_nat (0xC0 + x)"
    define b1 :: byte where "b1 = of_nat (0x80 + l)"
    have e: "utf8_cp cp = [b0, b1]" using 2 by (simp add: utf8_cp_def b0_def b1_def d)
    have u0: "unat b0 = 0xC0 + x" unfolding b0_def using 2 cp by (intro unat_byte) linarith
    have u1: "unat b1 = 0x80 + l" unfolding b1_def using cp by (intro unat_byte) linarith
    have "utf8_decode (b0 # b1 # bs) = (x * 0x40 + l) # utf8_decode bs"
      using 2 cp by (intro utf8_decode_2 u0 u1) linarith+
    moreover have "x * 0x40 + l = cp" using cp by linarith
    ultimately show ?thesis by (simp add: e)
  next
    case 3
    define b0 :: byte where "b0 = of_nat (0xE0 + y)"
    define b1 :: byte where "b1 = of_nat (0x80 + m)"
    define b2 :: byte where "b2 = of_nat (0x80 + l)"
    have e: "utf8_cp cp = [b0, b1, b2]" using 3 by (simp add: utf8_cp_def b0_def b1_def b2_def d m_def)
    have u0: "unat b0 = 0xE0 + y" unfolding b0_def using 3 cp x by (intro unat_byte) linarith
    have u1: "unat b1 = 0x80 + m" unfolding b1_def using x by (intro unat_byte) linarith
    have u2: "unat b2 = 0x80 + l" unfolding b2_def using cp by (intro unat_byte) linarith
    have "utf8_decode (b0 # b1 # b2 # bs) = (y * 0x1000 + m * 0x40 + l) # utf8_decode bs"
    proof (intro utf8_decode_3 u0 u1 u2)
      show "y < 0x10" using 3 cp x by linarith
      show "y = 0 \<Longrightarrow> 0x20 \<le> m" using 3 cp x by linarith
      show "y = 0xD \<Longrightarrow> m < 0x20" using 3 assms cp x by linarith
    qed (use cp x in simp_all)
    moreover have "y * 0x1000 + m * 0x40 + l = cp" using cp x by linarith
    ultimately show ?thesis by (simp add: e)
  next
    case 4
    define b0 :: byte where "b0 = of_nat (0xF0 + z)"
    define b1 :: byte where "b1 = of_nat (0x80 + k)"
    define b2 :: byte where "b2 = of_nat (0x80 + m)"
    define b3 :: byte where "b3 = of_nat (0x80 + l)"
    have e: "utf8_cp cp = [b0, b1, b2, b3]"
      using 4 by (simp add: utf8_cp_def b0_def b1_def b2_def b3_def d m_def k_def)
    have u0: "unat b0 = 0xF0 + z" unfolding b0_def using assms cp x y by (intro unat_byte) linarith
    have u1: "unat b1 = 0x80 + k" unfolding b1_def using y by (intro unat_byte) linarith
    have u2: "unat b2 = 0x80 + m" unfolding b2_def using x by (intro unat_byte) linarith
    have u3: "unat b3 = 0x80 + l" unfolding b3_def using cp by (intro unat_byte) linarith
    have "utf8_decode (b0 # b1 # b2 # b3 # bs) =
        (z * 0x40000 + k * 0x1000 + m * 0x40 + l) # utf8_decode bs"
    proof (intro utf8_decode_4 u0 u1 u2 u3)
      show "z < 5" using assms cp x y by linarith
      show "z = 0 \<Longrightarrow> 0x10 \<le> k" using 4 cp x y by linarith
      show "z = 4 \<Longrightarrow> k < 0x10" using 4 assms cp x y by linarith
    qed (use cp x y in simp_all)
    moreover have "z * 0x40000 + k * 0x1000 + m * 0x40 + l = cp" using cp x y by linarith
    ultimately show ?thesis by (simp add: e)
  qed
qed

lemma utf16_cp_unit:
  "utf16_cp (unat u) = [u]"
  using unat_u16_bound [of u] by (simp add: utf16_cp_def)

lemma utf16_cp_pair:
  assumes "is_high_surrogate h" "is_low_surrogate l"
  shows "utf16_cp (surrogate_pair_cp h l) = [h, l]"
proof -
  define a where "a = unat h - 0xD800"
  define b where "b = unat l - 0xDC00"
  have a: "unat h = 0xD800 + a" "a < 0x400"
    using assms(1) unfolding a_def is_high_surrogate_def by linarith+
  have b: "unat l = 0xDC00 + b" "b < 0x400"
    using assms(2) unfolding b_def is_low_surrogate_def by linarith+
  have cp: "surrogate_pair_cp h l = 0x10000 + (a * 0x400 + b)"
    by (simp add: surrogate_pair_cp_def a_def b_def)
  have q: "(0x10000 + (a * 0x400 + b) - 0x10000) div 0x400 = a"
    "(0x10000 + (a * 0x400 + b) - 0x10000) mod 0x400 = b"
    "\<not> 0x10000 + (a * 0x400 + b) < 0x10000"
    using b(2) by simp_all
  have "(of_nat (0xD800 + a) :: u16) = of_nat (unat h)" "(of_nat (0xDC00 + b) :: u16) = of_nat (unat l)"
    using a b by simp_all
  then have "(of_nat (0xD800 + a) :: u16) = h" "(of_nat (0xDC00 + b) :: u16) = l"
    by simp_all
  then show ?thesis
    unfolding cp utf16_cp_def by (simp only: q if_False)
qed

lemma surrogate_pair_cp_range:
  assumes "is_high_surrogate h" "is_low_surrogate l"
  shows "0x10000 \<le> surrogate_pair_cp h l \<and> surrogate_pair_cp h l < 0x110000"
  using assms unfolding surrogate_pair_cp_def is_high_surrogate_def is_low_surrogate_def
  by linarith

lemma utf8_to_string_cp:
  assumes "cp < 0x110000" "\<not> (0xD800 \<le> cp \<and> cp \<le> 0xDFFF)"
  shows "utf8_to_string (utf8_cp cp @ bs) = utf16_cp cp @ utf8_to_string bs"
  using utf8_decode_cp [OF assms] by (simp add: utf8_to_string_def)

lemma utf8_to_string_unit:
  assumes "\<not> is_surrogate u"
  shows "utf8_to_string (utf8_unit u @ bs) = u # utf8_to_string bs"
proof -
  have "unat u < 0x110000" using unat_u16_bound [of u] by simp
  moreover have "\<not> (0xD800 \<le> unat u \<and> unat u \<le> 0xDFFF)"
    using assms by (auto simp: is_surrogate_def is_high_surrogate_def is_low_surrogate_def)
  ultimately show ?thesis
    using assms by (simp add: utf8_unit_def utf8_to_string_cp utf16_cp_unit)
qed

lemma utf8_to_string_pair:
  assumes "is_high_surrogate h" "is_low_surrogate l"
  shows "utf8_to_string (utf8_cp (surrogate_pair_cp h l) @ bs) = h # l # utf8_to_string bs"
  using surrogate_pair_cp_range [OF assms] assms
  by (simp add: utf8_to_string_cp utf16_cp_pair)

lemma utf8_roundtrip_append:
  "well_formed s \<Longrightarrow> utf8_to_string (utf8_encode s @ bs) = s @ utf8_to_string bs"
proof (induction s rule: utf8_encode.induct)
  case 1
  then show ?case by simp
next
  case (2 u)
  then show ?case by (simp add: utf8_to_string_unit)
next
  case (3 u l us)
  show ?case
  proof (cases "is_high_surrogate u \<and> is_low_surrogate l")
    case True
    with 3 show ?thesis by (simp add: utf8_to_string_pair)
  next
    case False
    with 3 show ?thesis by (auto simp: utf8_to_string_unit)
  qed
qed

lemma utf8_roundtrip: "well_formed s \<Longrightarrow> utf8_to_string (utf8_encode s) = s"
  using utf8_roundtrip_append [of s "[]"] by (simp add: utf8_to_string_def)

lemma unat_hex_digit:
  "n < 16 \<Longrightarrow> unat (hex_digit n) = (if n < 10 then 0x30 + n else 0x57 + n)"
  by (simp add: hex_digit_def unat_u16 del: of_nat_add)

lemma hex_val_digit: "n < 16 \<Longrightarrow> hex_val (hex_digit n) = Some n"
  by (simp add: hex_val_def Let_def unat_hex_digit)

lemma hex_digit_range:
  "n < 16 \<Longrightarrow> unat (hex_digit n) < 0x80 \<and> unat (hex_digit n) \<noteq> 0x3A"
  by (simp add: unat_hex_digit)

lemma byte_div_mod: "of_nat (16 * (unat b div 16) + unat b mod 16) = (b :: byte)"
  by simp

lemma hex_encode_Cons:
  "hex_encode (b # bs) = hex_digit (unat b div 16) # hex_digit (unat b mod 16) # hex_encode bs"
  by (simp add: hex_encode_def)

lemma hex_encode_Nil: "hex_encode [] = []"
  by (simp add: hex_encode_def)

lemma nibbles: "unat (b :: byte) div 16 < 16" "unat b mod 16 < 16"
  using unat_byte_bound [of b] by simp_all

lemma hex_encode_length: "even (length (hex_encode bs))"
  by (induction bs) (simp_all add: hex_encode_Nil hex_encode_Cons)

lemma hex_decode_encode: "hex_decode (hex_encode bs) = bs"
proof (induction bs)
  case Nil
  then show ?case by (simp add: hex_encode_Nil)
next
  case (Cons b bs)
  then show ?case
    by (simp add: hex_encode_Cons hex_val_digit nibbles del: of_nat_add of_nat_mult)
qed

lemma hex_encode_chars:
  "u \<in> set (hex_encode bs) \<Longrightarrow> is_ascii u \<and> u \<noteq> 0x3A"
proof (induction bs)
  case Nil
  then show ?case by (simp add: hex_encode_Nil)
next
  case (Cons b bs)
  have "is_ascii (hex_digit n) \<and> hex_digit n \<noteq> 0x3A" if "n < 16" for n
    using hex_digit_range [OF that] by (auto simp: is_ascii_def)
  with Cons show ?case
    by (auto simp: hex_encode_Cons nibbles)
qed

lemma split_on_nonempty: "split_on c s \<noteq> []"
  by (induction s) (auto split: list.splits)

lemma split_on_prefix:
  "c \<notin> set h \<Longrightarrow> split_on c (h @ c # r) = h # split_on c r"
  by (induction h) (auto split: list.splits)

lemma join_split: "join_with c (split_on c s) = s"
proof (induction s)
  case Nil
  then show ?case by simp
next
  case (Cons u s)
  show ?case
  proof (cases "u = c")
    case True
    with Cons show ?thesis
      using split_on_nonempty [of c s] by (cases "split_on c s") simp_all
  next
    case False
    obtain x xs where x: "split_on c s = x # xs"
      using split_on_nonempty [of c s] by (cases "split_on c s") auto
    with Cons False show ?thesis by (cases xs) simp_all
  qed
qed

text \<open>Encoding to UTF-8 cannot confuse an ASCII string with another string.\<close>

lemma utf8_unit_nonempty: "utf8_unit u \<noteq> []"
  by (simp add: utf8_unit_def utf8_cp_def)

lemma utf8_cp_nonempty: "utf8_cp n \<noteq> []"
  by (simp add: utf8_cp_def)

lemma utf8_encode_eq_Nil: "utf8_encode s = [] \<longleftrightarrow> s = []"
  by (induction s rule: utf8_encode.induct) (simp_all add: utf8_unit_nonempty utf8_cp_nonempty)

lemma is_ascii_not_surrogate: "is_ascii u \<Longrightarrow> \<not> is_surrogate u \<and> \<not> is_high_surrogate u"
  by (simp add: is_ascii_def is_surrogate_def is_high_surrogate_def is_low_surrogate_def)

lemma utf8_encode_ascii_Cons:
  "is_ascii u \<Longrightarrow> utf8_encode (u # us) = of_nat (unat u) # utf8_encode us"
  by (cases us) (simp_all add: is_ascii_not_surrogate utf8_unit_def utf8_cp_def is_ascii_def)

lemma utf8_cp_head:
  "0x80 \<le> n \<Longrightarrow> n < 0x110000 \<Longrightarrow> \<exists>b bs. utf8_cp n = b # bs \<and> 0x80 \<le> unat b"
proof -
  assume n: "0x80 \<le> n" "n < 0x110000"
  have 1: "unat (of_nat (0xC0 + n div 0x40) :: byte) = 0xC0 + n div 0x40" if "n < 0x800"
    using that by (intro unat_byte) simp
  have 2: "unat (of_nat (0xE0 + n div 0x1000) :: byte) = 0xE0 + n div 0x1000" if "n < 0x10000"
    using that by (intro unat_byte) simp
  have 3: "unat (of_nat (0xF0 + n div 0x40000) :: byte) = 0xF0 + n div 0x40000"
    using n by (intro unat_byte) simp
  show ?thesis
    using n 1 2 3 unfolding utf8_cp_def
    by (simp del: of_nat_add)
qed

lemma utf8_unit_head:
  "\<not> is_ascii u \<Longrightarrow> \<exists>b bs. utf8_unit u = b # bs \<and> 0x80 \<le> unat b"
  using utf8_cp_head [of "unat u"] unat_u16_bound [of u]
  by (auto simp: utf8_unit_def is_ascii_def)

lemma utf8_encode_nonascii_head:
  assumes "\<not> is_ascii u"
  shows "\<exists>b bs. utf8_encode (u # us) = b # bs \<and> 0x80 \<le> unat b"
proof (cases us)
  case Nil
  then show ?thesis using utf8_unit_head [OF assms] by simp
next
  case (Cons l us')
  show ?thesis
  proof (cases "is_high_surrogate u \<and> is_low_surrogate l")
    case True
    then have "0x10000 \<le> surrogate_pair_cp u l \<and> surrogate_pair_cp u l < 0x110000"
      by (intro surrogate_pair_cp_range) simp_all
    then obtain b bs where "utf8_cp (surrogate_pair_cp u l) = b # bs" "0x80 \<le> unat b"
      using utf8_cp_head [of "surrogate_pair_cp u l"] by auto
    with True Cons show ?thesis by simp
  next
    case False
    obtain b bs where "utf8_unit u = b # bs" "0x80 \<le> unat b"
      using utf8_unit_head [OF assms] by auto
    with False Cons show ?thesis by auto
  qed
qed

lemma utf8_encode_ascii_inj:
  "\<forall>u \<in> set b. is_ascii u \<Longrightarrow> utf8_encode a = utf8_encode b \<Longrightarrow> a = b"
proof (induction b arbitrary: a)
  case Nil
  then show ?case by (simp add: utf8_encode_eq_Nil)
next
  case (Cons c b)
  then have c: "is_ascii c" by simp
  have eb: "utf8_encode (c # b) = of_nat (unat c) # utf8_encode b"
    using c by (rule utf8_encode_ascii_Cons)
  have uc: "unat (of_nat (unat c) :: byte) = unat c"
    using c by (intro unat_byte) (simp add: is_ascii_def)
  show ?case
  proof (cases a)
    case Nil
    with Cons.prems eb show ?thesis by simp
  next
    case a: (Cons u us)
    show ?thesis
    proof (cases "is_ascii u")
      case True
      have ea: "utf8_encode (u # us) = of_nat (unat u) # utf8_encode us"
        using True by (rule utf8_encode_ascii_Cons)
      have uu: "unat (of_nat (unat u) :: byte) = unat u"
        using True by (intro unat_byte) (simp add: is_ascii_def)
      from Cons.prems(2) a ea eb
      have h: "(of_nat (unat u) :: byte) = of_nat (unat c)" and t: "utf8_encode us = utf8_encode b"
        by simp_all
      from h uu uc have "unat u = unat c" by metis
      then have "u = c" by (rule unsigned_word_eqI)
      moreover have "us = b" using Cons.IH [of us] Cons.prems(1) t by simp
      ultimately show ?thesis using a by simp
    next
      case False
      obtain x xs where x: "utf8_encode (u # us) = x # xs" "0x80 \<le> unat x"
        using utf8_encode_nonascii_head [OF False] by blast
      with Cons.prems(2) a eb have "x = of_nat (unat c)" by simp
      with x(2) uc c show ?thesis by (simp add: is_ascii_def)
    qed
  qed
qed

lemma starts_with_iff: "starts_with s w \<longleftrightarrow> (\<exists>b. s = w @ b)"
  by (induction s w rule: starts_with.induct) auto

lemma str_includes_iff: "str_includes s w \<longleftrightarrow> (\<exists>a b. s = a @ w @ b)"
proof (induction s)
  case Nil
  then show ?case by simp
next
  case (Cons u s)
  show ?case
  proof
    assume "str_includes (u # s) w"
    then consider "starts_with (u # s) w" | "str_includes s w" by auto
    then show "\<exists>a b. u # s = a @ w @ b"
    proof cases
      case 1
      then obtain b where "u # s = w @ b" by (auto simp: starts_with_iff)
      then have "u # s = [] @ w @ b" by simp
      then show ?thesis by blast
    next
      case 2
      then obtain a b where "s = a @ w @ b" using Cons.IH by blast
      then have "u # s = (u # a) @ w @ b" by simp
      then show ?thesis by blast
    qed
  next
    assume "\<exists>a b. u # s = a @ w @ b"
    then obtain a b where e: "u # s = a @ w @ b" by blast
    show "str_includes (u # s) w"
    proof (cases a)
      case Nil
      with e have "starts_with (u # s) w" by (auto simp: starts_with_iff)
      then show ?thesis by simp
    next
      case (Cons x a')
      with e have "s = a' @ w @ b" by simp
      then have "str_includes s w" using Cons.IH by blast
      then show ?thesis by simp
    qed
  qed
qed

lemma replace_ws_word:
  "\<forall>u \<in> set w. \<not> is_space u \<Longrightarrow> replace_ws (w @ b) = w @ replace_ws b"
  by (induction w) simp_all

lemma dropWhile_before_word:
  assumes "w \<noteq> []" "\<not> P (hd w)"
  shows "dropWhile P (a @ w @ b) = dropWhile P a @ w @ b"
proof -
  obtain x xs where w: "w = x # xs" using assms(1) by (cases w) auto
  then have "\<not> P x" using assms(2) by simp
  then show ?thesis
    by (simp add: dropWhile_append w)
qed

lemma replace_ws_keeps_word:
  assumes "w \<noteq> []" "\<forall>u \<in> set w. \<not> is_space u"
  shows "\<exists>a' b'. replace_ws (a @ w @ b) = a' @ w @ b'"
proof (induction a rule: replace_ws.induct)
  case 1
  have "replace_ws ([] @ w @ b) = [] @ w @ replace_ws b"
    using assms(2) by (simp add: replace_ws_word)
  then show ?case by blast
next
  case (2 u us)
  have hd: "\<not> is_space (hd w)" using assms by (cases w) auto
  show ?case
  proof (cases "is_space u")
    case True
    then obtain a' b' where "replace_ws (dropWhile is_space us @ w @ b) = a' @ w @ b'"
      using 2 by blast
    then have "replace_ws ((u # us) @ w @ b) = (0x5F # a') @ w @ b'"
      using True dropWhile_before_word [of w is_space us b] assms(1) hd by simp
    then show ?thesis by blast
  next
    case False
    then obtain a' b' where "replace_ws (us @ w @ b) = a' @ w @ b'"
      using 2 by blast
    then have "replace_ws ((u # us) @ w @ b) = (u # a') @ w @ b'"
      using False by simp
    then show ?thesis by blast
  qed
qed

lemma toUpperCase_word:
  "\<forall>u \<in> set v. is_ascii u \<Longrightarrow> toUpperCase up (v @ b) = map ascii_upper v @ toUpperCase up b"
  by (induction v) simp_all

lemma toUpperCase_keeps_word:
  assumes "v \<noteq> []" "\<forall>u \<in> set v. is_ascii u"
  shows "\<exists>a' b'. toUpperCase up (a @ v @ b) = a' @ map ascii_upper v @ b'"
proof (induction up a rule: toUpperCase.induct)
  case (1 up)
  have "toUpperCase up ([] @ v @ b) = [] @ map ascii_upper v @ toUpperCase up b"
    using assms(2) by (simp add: toUpperCase_word)
  then show ?case by blast
next
  case (2 up u us)
  have hd: "\<not> \<not> is_ascii (hd v)" using assms by (cases v) auto
  show ?case
  proof (cases "is_ascii u")
    case True
    then obtain a' b' where "toUpperCase up (us @ v @ b) = a' @ map ascii_upper v @ b'"
      using 2 by blast
    then have "toUpperCase up ((u # us) @ v @ b) = (ascii_upper u # a') @ map ascii_upper v @ b'"
      using True by simp
    then show ?thesis by blast
  next
    case False
    then obtain a' b' where
      "toUpperCase up (dropWhile (\<lambda>v. \<not> is_ascii v) us @ v @ b) = a' @ map ascii_upper v @ b'"
      using 2 by blast
    then have "toUpperCase up ((u # us) @ v @ b) =
        (up (u # takeWhile (\<lambda>v. \<not> is_ascii v) (us @ v @ b)) @ a') @ map ascii_upper v @ b'"
      using False dropWhile_before_word [of v "\<lambda>v. \<not> is_ascii v" us b] assms(1) hd by simp
    then show ?thesis by blast
  qed
qed

lemma is_ascii_upper: "is_ascii (ascii_upper u) \<longleftrightarrow> is_ascii u"
proof (cases "0x61 \<le> unat u \<and> unat u \<le> 0x7A")
  case True
  then have "unat (u - 0x20) = unat u - 0x20"
    by (simp add: unat_sub word_le_nat_alt)
  moreover have "unat u < 0x80" "unat u - 0x20 < 0x80" using True by linarith+
  ultimately show ?thesis using True by (simp add: ascii_upper_def is_ascii_def)
next
  case False
  then show ?thesis by (auto simp: ascii_upper_def)
qed

lemma map_eq_append_split:
  assumes "map f t = x @ y"
  shows "map f (take (length x) t) = x" "map f (drop (length x) t) = y"
proof -
  have "take (length x) (map f t) = x" "drop (length x) (map f t) = y"
    using assms by simp_all
  then show "map f (take (length x) t) = x" "map f (drop (length x) t) = y"
    by (simp_all add: take_map drop_map)
qed

text \<open>
  A word of ASCII characters without white space that occurs in a string, written in
  any mix of upper and lower case, occurs in the normalised string.
\<close>

lemma normalised_includes:
  assumes "str_includes (map ascii_upper t) w" "w \<noteq> []"
    "\<forall>u \<in> set w. is_ascii u \<and> \<not> is_space u"
  shows "str_includes (replace_ws (toUpperCase up t)) w"
proof -
  obtain a' b' where "map ascii_upper t = a' @ w @ b'"
    using assms(1) by (auto simp: str_includes_iff)
  then have m: "map ascii_upper t = a' @ (w @ b')" by simp
  define a where "a = take (length a') t"
  define r where "r = drop (length a') t"
  define v where "v = take (length w) r"
  define b where "b = drop (length w) r"
  have 1: "t = a @ r" "map ascii_upper r = w @ b'"
    using map_eq_append_split(2) [OF m] by (simp_all add: a_def r_def)
  have 2: "r = v @ b" "map ascii_upper v = w"
    using map_eq_append_split(1) [OF 1(2)] by (simp_all add: v_def b_def)
  from 1 2 have t: "t = a @ v @ b" and v: "map ascii_upper v = w" by simp_all
  have "is_ascii u" if "u \<in> set v" for u
  proof -
    have "ascii_upper u \<in> set w" using that v by auto
    then have "is_ascii (ascii_upper u)" using assms(3) by blast
    then show ?thesis by (simp only: is_ascii_upper)
  qed
  moreover have "v \<noteq> []" using v assms(2) by auto
  ultimately obtain c d where "toUpperCase up t = c @ w @ d"
    using toUpperCase_keeps_word [of v up a b] v t by auto
  moreover obtain c' d' where "replace_ws (c @ w @ d) = c' @ w @ d'"
    using replace_ws_keeps_word [of w c d] assms(2,3) by auto
  ultimately show ?thesis by (auto simp: str_includes_iff)
qed

section \<open>Facts about dates\<close>

lemma div_succ:
  fixes n k :: int
  assumes "0 < k"
  shows "(n + 1) div k = n div k + (if (n + 1) mod k = 0 then 1 else 0)"
proof -
  define q where "q = n div k"
  define r where "r = n mod k"
  have n: "n = q * k + r" "0 \<le> r" "r < k" using assms by (simp_all add: q_def r_def)
  show ?thesis
  proof (cases "r + 1 = k")
    case True
    then have e: "n + 1 = (q + 1) * k" using n by (simp add: algebra_simps)
    then have "(n + 1) div k = q + 1" "(n + 1) mod k = 0" using assms by simp_all
    then show ?thesis by (simp add: q_def)
  next
    case False
    then have lt: "r + 1 < k" using n by simp
    have e: "n + 1 = q * k + (r + 1)" using n by simp
    have d: "(n + 1) div k = q"
      unfolding e using lt n assms by simp
    have m: "(n + 1) mod k = r + 1"
      unfolding e using lt n assms by simp
    show ?thesis using d m n(2) by (simp add: q_def)
  qed
qed

lemma DayFromYear_step: "DayFromYear (y + 1) = DayFromYear y + 365 + leap_year y"
proof -
  have a: "(y + 1 - 1969) div 4 = (y - 1969) div 4 + (if (y - 1968) mod 4 = 0 then 1 else 0)"
    using div_succ [of 4 "y - 1969"] by (simp add: algebra_simps)
  have b: "(y + 1 - 1901) div 100 = (y - 1901) div 100 + (if (y - 1900) mod 100 = 0 then 1 else 0)"
    using div_succ [of 100 "y - 1901"] by (simp add: algebra_simps)
  have c: "(y + 1 - 1601) div 400 = (y - 1601) div 400 + (if (y - 1600) mod 400 = 0 then 1 else 0)"
    using div_succ [of 400 "y - 1601"] by (simp add: algebra_simps)
  have m4: "(y - 1968) mod 4 = y mod 4"
    using mod_diff_right_eq [of y 1968 4] by simp
  have m100: "(y - 1900) mod 100 = y mod 100"
    using mod_diff_right_eq [of y 1900 100] by simp
  have m400: "(y - 1600) mod 400 = y mod 400"
    using mod_diff_right_eq [of y 1600 400] by simp
  have i1: "y mod 100 = 0 \<Longrightarrow> y mod 4 = 0"
    using mod_mod_cancel [of 4 100 y] by simp
  have i2: "y mod 400 = 0 \<Longrightarrow> y mod 100 = 0"
    using mod_mod_cancel [of 100 400 y] by simp
  show ?thesis
    unfolding DayFromYear_def a b c m4 m100 m400 leap_year_def
    using i1 i2 by auto
qed

lemma leap_year_range: "leap_year y = 0 \<or> leap_year y = 1"
  by (simp add: leap_year_def)

lemma DayFromYear_less_succ: "DayFromYear y < DayFromYear (y + 1)"
  using leap_year_range [of y] by (auto simp: DayFromYear_step)

lemma DayFromYear_mono_aux: "DayFromYear y < DayFromYear (y + 1 + int n)"
proof (induction n)
  case 0
  then show ?case by (simp add: DayFromYear_less_succ)
next
  case (Suc n)
  have "DayFromYear (y + 1 + int n) < DayFromYear (y + 1 + int n + 1)"
    by (rule DayFromYear_less_succ)
  with Suc show ?case by (simp add: algebra_simps)
qed

lemma DayFromYear_strict_mono: "y < z \<Longrightarrow> DayFromYear y < DayFromYear z"
  using DayFromYear_mono_aux [of y "nat (z - y - 1)"] by simp

lemma DayFromYear_less_iff: "DayFromYear y < DayFromYear z \<longleftrightarrow> y < z"
  using DayFromYear_strict_mono [of y z] DayFromYear_strict_mono [of z y]
  by (cases y z rule: linorder_cases) auto

lemma DayFromYear_bounds:
  "146097 * (y - 1970) - 506 \<le> 400 * DayFromYear y"
  "400 * DayFromYear y \<le> 146097 * (y - 1970) + 589"
proof -
  define a where "a = (y - 1969) div 4"
  define b where "b = (y - 1901) div 100"
  define c where "c = (y - 1601) div 400"
  have a: "4 * a \<le> y - 1969" "y - 1969 < 4 * a + 4"
    unfolding a_def using div_mult_mod_eq [of "y - 1969" 4] pos_mod_bound [of 4 "y - 1969"] pos_mod_sign [of 4 "y - 1969"] by linarith+
  have b: "100 * b \<le> y - 1901" "y - 1901 < 100 * b + 100"
    unfolding b_def using div_mult_mod_eq [of "y - 1901" 100] pos_mod_bound [of 100 "y - 1901"] pos_mod_sign [of 100 "y - 1901"] by linarith+
  have c: "400 * c \<le> y - 1601" "y - 1601 < 400 * c + 400"
    unfolding c_def using div_mult_mod_eq [of "y - 1601" 400] pos_mod_bound [of 400 "y - 1601"] pos_mod_sign [of 400 "y - 1601"] by linarith+
  have d: "DayFromYear y = 365 * (y - 1970) + a - b + c"
    by (simp add: DayFromYear_def a_def b_def c_def)
  have 1: "100 * y - 197200 \<le> 400 * a" using a(2) by linarith
  have 2: "400 * b \<le> 4 * y - 7604" using b(1) by linarith
  have 3: "y - 2000 \<le> 400 * c" using c(2) by linarith
  show "146097 * (y - 1970) - 506 \<le> 400 * DayFromYear y"
    unfolding d using 1 2 3 by (simp add: algebra_simps)
  have 4: "400 * a \<le> 100 * y - 196900" using a(1) by linarith
  have 5: "4 * y - 8000 \<le> 400 * b" using b(2) by linarith
  have 6: "400 * c \<le> y - 1601" using c(1) by linarith
  show "400 * DayFromYear y \<le> 146097 * (y - 1970) + 589"
    unfolding d using 4 5 6 by (simp add: algebra_simps)
qed

lemma YearFromDay_unique:
  assumes "DayFromYear y \<le> d" "d < DayFromYear (y + 1)"
  shows "YearFromDay d = y"
proof -
  define q where "q = (400 * d) div 146097"
  have q: "146097 * q \<le> 400 * d" "400 * d < 146097 * q + 146097"
    unfolding q_def using div_mult_mod_eq [of "400 * d" 146097]
      pos_mod_bound [of 146097 "400 * d"] pos_mod_sign [of 146097 "400 * d"] by linarith+
  have lo: "1970 + q - 1 \<le> y"
  proof -
    have "400 * d \<le> 400 * DayFromYear (y + 1) - 400" using assms(2) by linarith
    also have "\<dots> \<le> 146097 * (y - 1969) + 189"
      using DayFromYear_bounds(2) [of "y + 1"] by (simp add: algebra_simps)
    finally have "146097 * q \<le> 146097 * (y - 1969) + 189" using q(1) by linarith
    moreover have "146097 * (y - 1968) \<le> 146097 * q" if "y - 1968 \<le> q"
      using that by simp
    ultimately have "q \<le> y - 1969"
      by (cases "y - 1968 \<le> q") (simp_all add: algebra_simps)
    then show ?thesis by linarith
  qed
  have hi: "y \<le> 1970 + q + 1"
  proof -
    have "146097 * (y - 1970) - 506 \<le> 400 * d"
      using DayFromYear_bounds(1) [of y] assms(1) by linarith
    then have "146097 * (y - 1970) - 506 < 146097 * (q + 1)"
      using q(2) by (simp add: algebra_simps)
    moreover have "146097 * (q + 2) \<le> 146097 * (y - 1970)" if "q + 2 \<le> y - 1970"
      using that by simp
    ultimately have "y - 1970 \<le> q + 1"
      by (cases "q + 2 \<le> y - 1970") (simp_all add: algebra_simps)
    then show ?thesis by linarith
  qed
  have 1: "d < DayFromYear (1970 + q) \<Longrightarrow> y = 1970 + q - 1"
  proof -
    assume "d < DayFromYear (1970 + q)"
    with assms(1) have "DayFromYear y < DayFromYear (1970 + q)" by linarith
    then have "y < 1970 + q" by (simp add: DayFromYear_less_iff)
    with lo show ?thesis by linarith
  qed
  have 2: "DayFromYear (1970 + q + 1) \<le> d \<Longrightarrow> y = 1970 + q + 1"
  proof -
    assume "DayFromYear (1970 + q + 1) \<le> d"
    with assms(2) have "DayFromYear (1970 + q + 1) < DayFromYear (y + 1)" by linarith
    then have "1970 + q + 1 < y + 1" by (simp only: DayFromYear_less_iff)
    with hi show ?thesis by linarith
  qed
  have 3: "\<not> d < DayFromYear (1970 + q) \<Longrightarrow> \<not> DayFromYear (1970 + q + 1) \<le> d \<Longrightarrow> y = 1970 + q"
  proof -
    assume n: "\<not> d < DayFromYear (1970 + q)" "\<not> DayFromYear (1970 + q + 1) \<le> d"
    from n(1) assms(2) have "DayFromYear (1970 + q) < DayFromYear (y + 1)" by linarith
    then have a: "1970 + q < y + 1" by (simp only: DayFromYear_less_iff)
    from n(2) assms(1) have "DayFromYear y < DayFromYear (1970 + q + 1)" by linarith
    then have b: "y < 1970 + q + 1" by (simp only: DayFromYear_less_iff)
    from a b show ?thesis by linarith
  qed
  show ?thesis
    unfolding YearFromDay_def q_def [symmetric] Let_def
    using 1 2 3 by (auto simp: algebra_simps)
qed

lemma div_mod_offset:
  fixes a k r :: int
  assumes "0 \<le> r" "r < k"
  shows "(a * k + r) div k = a" "(a * k + r) mod k = r"
  using assms by simp_all

lemma time_parts:
  assumes "0 \<le> h" "h < 24" "0 \<le> mi" "mi < 60" "0 \<le> s" "s < 60" "0 \<le> ms" "ms < 1000"
  shows "Day (n * 86400000 + h * 3600000 + mi * 60000 + s * 1000 + ms) = n"
    "HourFromTime (n * 86400000 + h * 3600000 + mi * 60000 + s * 1000 + ms) = h"
    "MinFromTime (n * 86400000 + h * 3600000 + mi * 60000 + s * 1000 + ms) = mi"
proof -
  let ?t = "n * 86400000 + h * 3600000 + mi * 60000 + s * 1000 + ms"
  have 1: "?t = n * 86400000 + (h * 3600000 + mi * 60000 + s * 1000 + ms)" by simp
  have r1: "0 \<le> h * 3600000 + mi * 60000 + s * 1000 + ms"
    "h * 3600000 + mi * 60000 + s * 1000 + ms < 86400000" using assms by simp_all
  show "Day ?t = n" unfolding Day_def 1 using r1 by (rule div_mod_offset)
  have 2: "?t = (n * 24 + h) * 3600000 + (mi * 60000 + s * 1000 + ms)" by (simp add: algebra_simps)
  have r2: "0 \<le> mi * 60000 + s * 1000 + ms" "mi * 60000 + s * 1000 + ms < 3600000"
    using assms by simp_all
  have "?t div 3600000 = n * 24 + h" unfolding 2 using r2 by (rule div_mod_offset)
  then show "HourFromTime ?t = h"
    unfolding HourFromTime_def using assms div_mod_offset(2) [of h 24 n] by simp
  have 3: "?t = (n * 1440 + h * 60 + mi) * 60000 + (s * 1000 + ms)" by (simp add: algebra_simps)
  have r3: "0 \<le> s * 1000 + ms" "s * 1000 + ms < 60000" using assms by simp_all
  have 4: "n * 1440 + h * 60 + mi = (n * 24 + h) * 60 + mi" by simp
  have "?t div 60000 = n * 1440 + h * 60 + mi" unfolding 3 using r3 by (rule div_mod_offset)
  then show "MinFromTime ?t = mi"
    unfolding MinFromTime_def using assms div_mod_offset(2) [of mi 60 "n * 24 + h"]
    by (simp add: 4)
qed

lemma days_before_month_range:
  assumes "1 \<le> m" "m \<le> 12" "1 \<le> d" "d \<le> days_in_month y m"
  shows "0 \<le> days_before_month y m + (d - 1)"
    "days_before_month y m + (d - 1) < 365 + leap_year y"
proof -
  consider "m = 1" | "m = 2" | "m = 3" | "m = 4" | "m = 5" | "m = 6" | "m = 7" | "m = 8"
    | "m = 9" | "m = 10" | "m = 11" | "m = 12" using assms(1,2) by atomize_elim presburger
  then have "0 \<le> days_before_month y m + (d - 1)
      \<and> days_before_month y m + (d - 1) < 365 + leap_year y"
    using assms(3,4) leap_year_range [of y]
    by cases (auto simp: days_before_month_def days_in_month_def Let_def)
  then show "0 \<le> days_before_month y m + (d - 1)"
    "days_before_month y m + (d - 1) < 365 + leap_year y" by simp_all
qed

lemma month_date_table:
  assumes "1 \<le> m" "m \<le> 12" "1 \<le> d" "d \<le> days_in_month y m"
    "DayWithinYear t = days_before_month y m + (d - 1)" "InLeapYear t = leap_year y"
  shows "MonthFromTime t = m - 1 \<and> DateFromTime t = d"
proof -
  consider "m = 1" | "m = 2" | "m = 3" | "m = 4" | "m = 5" | "m = 6" | "m = 7" | "m = 8"
    | "m = 9" | "m = 10" | "m = 11" | "m = 12" using assms(1,2) by atomize_elim presburger
  then show ?thesis
    using assms(3,4) leap_year_range [of y]
    by cases (auto simp: MonthFromTime_def DateFromTime_def assms(5,6)
        days_before_month_def days_in_month_def Let_def)
qed

lemma civil_roundtrip:
  assumes "valid_civil y m d h mi s ms"
  shows "YearFromTime (utc_time y m d h mi s ms) = y"
    "MonthFromTime (utc_time y m d h mi s ms) + 1 = m"
    "DateFromTime (utc_time y m d h mi s ms) = d"
    "HourFromTime (utc_time y m d h mi s ms) = h"
    "MinFromTime (utc_time y m d h mi s ms) = mi"
proof -
  define n where "n = DayFromYear y + days_before_month y m + (d - 1)"
  define t where "t = utc_time y m d h mi s ms"
  have v: "1 \<le> m" "m \<le> 12" "1 \<le> d" "d \<le> days_in_month y m" "0 \<le> h" "h < 24"
    "0 \<le> mi" "mi < 60" "0 \<le> s" "s < 60" "0 \<le> ms" "ms < 1000"
    using assms by (simp_all add: valid_civil_def)
  have t: "t = n * 86400000 + h * 3600000 + mi * 60000 + s * 1000 + ms"
    by (simp add: t_def utc_time_def n_def)
  have day: "Day t = n" and hour: "HourFromTime t = h" and minute: "MinFromTime t = mi"
    unfolding t using v(5-12) by (rule time_parts)+
  have r: "0 \<le> days_before_month y m + (d - 1)"
    "days_before_month y m + (d - 1) < 365 + leap_year y"
    using v(1-4) by (rule days_before_month_range)+
  have "DayFromYear y \<le> n" "n < DayFromYear (y + 1)"
    using r by (simp_all add: n_def DayFromYear_step)
  then have year: "YearFromTime t = y"
    unfolding YearFromTime_def day by (rule YearFromDay_unique)
  have dwy: "DayWithinYear t = days_before_month y m + (d - 1)"
    by (simp add: DayWithinYear_def day year n_def)
  have il: "InLeapYear t = leap_year y"
    by (simp add: InLeapYear_def year)
  have md: "MonthFromTime t = m - 1 \<and> DateFromTime t = d"
    using v(1-4) dwy il by (rule month_date_table)
  show "YearFromTime (utc_time y m d h mi s ms) = y"
    "MonthFromTime (utc_time y m d h mi s ms) + 1 = m"
    "DateFromTime (utc_time y m d h mi s ms) = d"
    "HourFromTime (utc_time y m d h mi s ms) = h"
    "MinFromTime (utc_time y m d h mi s ms) = mi"
    using year md hour minute by (simp_all add: t_def)
qed

lemma YearFromDay_spec:
  "DayFromYear (YearFromDay d) \<le> d \<and> d < DayFromYear (YearFromDay d + 1)"
proof -
  define q where "q = (400 * d) div 146097"
  have q: "146097 * q \<le> 400 * d" "400 * d < 146097 * q + 146097"
    unfolding q_def using div_mult_mod_eq [of "400 * d" 146097]
      pos_mod_bound [of 146097 "400 * d"] pos_mod_sign [of 146097 "400 * d"] by linarith+
  have "400 * DayFromYear (1970 + q - 1) \<le> 146097 * q"
    using DayFromYear_bounds(2) [of "1970 + q - 1"] by (simp add: algebra_simps)
  then have "400 * DayFromYear (1970 + q - 1) \<le> 400 * d" using q(1) by linarith
  then have lo: "DayFromYear (1970 + q - 1) \<le> d" by simp
  have "146097 * q + 146097 \<le> 400 * DayFromYear (1970 + q + 2)"
    using DayFromYear_bounds(1) [of "1970 + q + 2"] by (simp add: algebra_simps)
  then have "400 * d < 400 * DayFromYear (1970 + q + 2)" using q(2) by linarith
  then have hi: "d < DayFromYear (1970 + q + 2)" by simp
  have e: "1970 + q + 1 + 1 = 1970 + q + 2" "1970 + q - 1 + 1 = 1970 + q" by simp_all
  show ?thesis
    unfolding YearFromDay_def q_def [symmetric] Let_def
    using lo hi by (auto simp: e)
qed

lemma time_of_day:
  fixes t :: int
  shows "t = Day t * 86400000 + HourFromTime t * 3600000 + MinFromTime t * 60000
             + (t div 1000) mod 60 * 1000 + t mod 1000"
    "0 \<le> HourFromTime t" "HourFromTime t < 24" "0 \<le> MinFromTime t" "MinFromTime t < 60"
    "0 \<le> (t div 1000) mod 60" "(t div 1000) mod 60 < 60" "0 \<le> t mod 1000" "t mod 1000 < 1000"
proof -
  define x where "x = t div 1000"
  define y where "y = x div 60"
  define z where "z = y div 60"
  define A where "A = z div 24"
  have e1: "t div 60000 = y"
    unfolding y_def x_def using zdiv_zmult2_eq [of 60 t 1000] by simp
  have e2: "t div 3600000 = z"
    unfolding z_def e1 [symmetric] using zdiv_zmult2_eq [of 60 t 60000] by simp
  have e3: "t div 86400000 = A"
    unfolding A_def e2 [symmetric] using zdiv_zmult2_eq [of 24 t 3600000] by simp
  have 1: "t = x * 1000 + t mod 1000" unfolding x_def by simp
  have 2: "x = y * 60 + x mod 60" unfolding y_def by simp
  have 3: "y = z * 60 + y mod 60" unfolding z_def by simp
  have 4: "z = A * 24 + z mod 24" unfolding A_def by simp
  have 5: "x * 1000 = y * 60000 + x mod 60 * 1000" using 2 by linarith
  have 6: "y * 60000 = z * 3600000 + y mod 60 * 60000" using 3 by linarith
  have 7: "z * 3600000 = A * 86400000 + z mod 24 * 3600000" using 4 by linarith
  have "t = A * 86400000 + z mod 24 * 3600000 + y mod 60 * 60000 + x mod 60 * 1000 + t mod 1000"
    using 1 5 6 7 by linarith
  then show "t = Day t * 86400000 + HourFromTime t * 3600000 + MinFromTime t * 60000
             + (t div 1000) mod 60 * 1000 + t mod 1000"
    unfolding Day_def HourFromTime_def MinFromTime_def e1 e2 e3 x_def [symmetric] .
  show "0 \<le> HourFromTime t" "HourFromTime t < 24" "0 \<le> MinFromTime t" "MinFromTime t < 60"
    "0 \<le> (t div 1000) mod 60" "(t div 1000) mod 60 < 60" "0 \<le> t mod 1000" "t mod 1000 < 1000"
    unfolding HourFromTime_def MinFromTime_def by simp_all
qed

lemma month_date_of_day:
  assumes "0 \<le> DayWithinYear t" "DayWithinYear t < 365 + leap_year y" "InLeapYear t = leap_year y"
  shows "1 \<le> MonthFromTime t + 1" "MonthFromTime t + 1 \<le> 12" "1 \<le> DateFromTime t"
    "DateFromTime t \<le> days_in_month y (MonthFromTime t + 1)"
    "days_before_month y (MonthFromTime t + 1) + (DateFromTime t - 1) = DayWithinYear t"
proof -
  define w where "w = DayWithinYear t"
  define l where "l = leap_year y"
  have l: "l = 0 \<or> l = 1" using leap_year_range [of y] by (simp add: l_def)
  have w: "0 \<le> w" "w < 365 + l" using assms(1,2) by (simp_all add: w_def l_def)
  have m: "MonthFromTime t =
     (if w < 31 then 0 else if w < 59 + l then 1 else if w < 90 + l then 2
      else if w < 120 + l then 3 else if w < 151 + l then 4 else if w < 181 + l then 5
      else if w < 212 + l then 6 else if w < 243 + l then 7 else if w < 273 + l then 8
      else if w < 304 + l then 9 else if w < 334 + l then 10 else 11)"
    by (simp add: MonthFromTime_def w_def l_def assms(3) Let_def)
  consider "w < 31" | "31 \<le> w" "w < 59 + l" | "59 + l \<le> w" "w < 90 + l"
    | "90 + l \<le> w" "w < 120 + l" | "120 + l \<le> w" "w < 151 + l"
    | "151 + l \<le> w" "w < 181 + l" | "181 + l \<le> w" "w < 212 + l"
    | "212 + l \<le> w" "w < 243 + l" | "243 + l \<le> w" "w < 273 + l"
    | "273 + l \<le> w" "w < 304 + l" | "304 + l \<le> w" "w < 334 + l" | "334 + l \<le> w"
    by linarith
  then have "1 \<le> MonthFromTime t + 1 \<and> MonthFromTime t + 1 \<le> 12 \<and> 1 \<le> DateFromTime t
    \<and> DateFromTime t \<le> days_in_month y (MonthFromTime t + 1)
    \<and> days_before_month y (MonthFromTime t + 1) + (DateFromTime t - 1) = w"
  proof cases
    case 1
    then have "MonthFromTime t = 0" by (simp add: m)
    then show ?thesis
      using 1 w l by (simp add: DateFromTime_def days_in_month_def days_before_month_def
          Let_def w_def [symmetric])
  next
    case 2
    then have "MonthFromTime t = 1" using l by (auto simp: m)
    then show ?thesis
      using 2 w l by (auto simp: DateFromTime_def days_in_month_def days_before_month_def
          Let_def w_def [symmetric] l_def [symmetric])
  next
    case 3
    then have "MonthFromTime t = 2" using l by (auto simp: m)
    then show ?thesis
      using 3 w l by (auto simp: DateFromTime_def days_in_month_def days_before_month_def
          Let_def w_def [symmetric] l_def [symmetric] assms(3))
  next
    case 4
    then have "MonthFromTime t = 3" using l by (auto simp: m)
    then show ?thesis
      using 4 w l by (auto simp: DateFromTime_def days_in_month_def days_before_month_def
          Let_def w_def [symmetric] l_def [symmetric] assms(3))
  next
    case 5
    then have "MonthFromTime t = 4" using l by (auto simp: m)
    then show ?thesis
      using 5 w l by (auto simp: DateFromTime_def days_in_month_def days_before_month_def
          Let_def w_def [symmetric] l_def [symmetric] assms(3))
  next
    case 6
    then have "MonthFromTime t = 5" using l by (auto simp: m)
    then show ?thesis
      using 6 w l by (auto simp: DateFromTime_def days_in_month_def days_before_month_def
          Let_def w_def [symmetric] l_def [symmetric] assms(3))
  next
    case 7
    then have "MonthFromTime t = 6" using l by (auto simp: m)
    then show ?thesis
      using 7 w l by (auto simp: DateFromTime_def days_in_month_def days_before_month_def
          Let_def w_def [symmetric] l_def [symmetric] assms(3))
  next
    case 8
    then have "MonthFromTime t = 7" using l by (auto simp: m)
    then show ?thesis
      using 8 w l by (auto simp: DateFromTime_def days_in_month_def days_before_month_def
          Let_def w_def [symmetric] l_def [symmetric] assms(3))
  next
    case 9
    then have "MonthFromTime t = 8" using l by (auto simp: m)
    then show ?thesis
      using 9 w l by (auto simp: DateFromTime_def days_in_month_def days_before_month_def
          Let_def w_def [symmetric] l_def [symmetric] assms(3))
  next
    case 10
    then have "MonthFromTime t = 9" using l by (auto simp: m)
    then show ?thesis
      using 10 w l by (auto simp: DateFromTime_def days_in_month_def days_before_month_def
          Let_def w_def [symmetric] l_def [symmetric] assms(3))
  next
    case 11
    then have "MonthFromTime t = 10" using l by (auto simp: m)
    then show ?thesis
      using 11 w l by (auto simp: DateFromTime_def days_in_month_def days_before_month_def
          Let_def w_def [symmetric] l_def [symmetric] assms(3))
  next
    case 12
    then have "MonthFromTime t = 11" using l by (auto simp: m)
    then show ?thesis
      using 12 w l by (auto simp: DateFromTime_def days_in_month_def days_before_month_def
          Let_def w_def [symmetric] l_def [symmetric] assms(3))
  qed
  then show "1 \<le> MonthFromTime t + 1" "MonthFromTime t + 1 \<le> 12" "1 \<le> DateFromTime t"
    "DateFromTime t \<le> days_in_month y (MonthFromTime t + 1)"
    "days_before_month y (MonthFromTime t + 1) + (DateFromTime t - 1) = DayWithinYear t"
    by (simp_all add: w_def)
qed

text \<open>Every time value is the time of a civil date: the one its UTC getters return.\<close>

lemma civil_of_time:
  "valid_civil (YearFromTime t) (MonthFromTime t + 1) (DateFromTime t) (HourFromTime t)
     (MinFromTime t) ((t div 1000) mod 60) (t mod 1000)
   \<and> utc_time (YearFromTime t) (MonthFromTime t + 1) (DateFromTime t) (HourFromTime t)
       (MinFromTime t) ((t div 1000) mod 60) (t mod 1000) = t"
proof -
  define y where "y = YearFromTime t"
  have s: "DayFromYear y \<le> Day t" "Day t < DayFromYear (y + 1)"
    using YearFromDay_spec [of "Day t"] by (simp_all add: y_def YearFromTime_def)
  have w: "0 \<le> DayWithinYear t" "DayWithinYear t < 365 + leap_year y"
    using s by (simp_all add: DayWithinYear_def y_def [symmetric] DayFromYear_step)
  have il: "InLeapYear t = leap_year y" by (simp add: InLeapYear_def y_def)
  note md = month_date_of_day [OF w il]
  note td = time_of_day [of t]
  have v: "valid_civil y (MonthFromTime t + 1) (DateFromTime t) (HourFromTime t)
     (MinFromTime t) ((t div 1000) mod 60) (t mod 1000)"
    unfolding valid_civil_def using md(1-4) td(2-9) by simp
  have "DayFromYear y + days_before_month y (MonthFromTime t + 1) + (DateFromTime t - 1) = Day t"
    using md(5) by (simp add: DayWithinYear_def y_def [symmetric])
  then have "utc_time y (MonthFromTime t + 1) (DateFromTime t) (HourFromTime t)
       (MinFromTime t) ((t div 1000) mod 60) (t mod 1000) = t"
    unfolding utc_time_def using td(1) by simp
  with v show ?thesis by (simp add: y_def)
qed

section \<open>Facts about the handlers\<close>

lemma built_invites_append: "built_invites (xs @ ys) = built_invites xs @ built_invites ys"
  by (induction xs rule: built_invites.induct) simp_all

lemma sent_emails_append: "sent_emails (xs @ ys) = sent_emails xs @ sent_emails ys"
  by (induction xs rule: sent_emails.induct) simp_all

lemma parsed_bodies_append: "parsed_bodies (xs @ ys) = parsed_bodies xs @ parsed_bodies ys"
  by (induction xs rule: parsed_bodies.induct) simp_all

lemma buildIcsString_effects:
  "buildIcsString pf params = (r, effs) \<Longrightarrow> effs = [CreateEvent (ics_event_attributes params)]"
  by (auto simp: buildIcsString_def Let_def split: option.splits)

lemma sendPostmarkEmail_effects:
  "sendPostmarkEmail pf ev params = (r, effs) \<Longrightarrow>
     built_invites effs = [] \<and> parsed_bodies effs = []"
  by (auto simp: sendPostmarkEmail_def Let_def split: sum.splits if_splits)

lemma handleBookingCreated_invites:
  "built_invites (snd (handleBookingCreated pf ev pl s e a hE hN loc u n from)) =
     [ics_event_attributes
        \<lparr> ics_uid = u, ics_title = or_default (title pl) (str ''Meeting''),
          ics_description = description pl, ics_start = s, ics_end = e,
          ics_organizer = \<lparr> name = hN, email = hE \<rparr>,
          ics_attendee = \<lparr> name = name a, email = email a \<rparr>,
          ics_location = Some loc, ics_sequence = Some n,
          ics_status = CONFIRMED, ics_method = REQUEST \<rparr>]"
  unfolding handleBookingCreated_def
  by (auto simp: built_invites_append Let_def
      split: prod.splits sum.splits
      dest!: buildIcsString_effects sendPostmarkEmail_effects)

lemma handleBookingRescheduled_invites:
  "built_invites (snd (handleBookingRescheduled pf ev pl s e a hE hN loc u n from)) =
     [ics_event_attributes
        \<lparr> ics_uid = u, ics_title = or_default (title pl) (str ''Meeting''),
          ics_description = description pl, ics_start = s, ics_end = e,
          ics_organizer = \<lparr> name = hN, email = hE \<rparr>,
          ics_attendee = \<lparr> name = name a, email = email a \<rparr>,
          ics_location = Some loc, ics_sequence = Some (js_plus_one n),
          ics_status = CONFIRMED, ics_method = REQUEST \<rparr>]"
  unfolding handleBookingRescheduled_def
  by (auto simp: built_invites_append Let_def
      split: prod.splits sum.splits
      dest!: buildIcsString_effects sendPostmarkEmail_effects)

lemma handleBookingCancelled_invites:
  "built_invites (snd (handleBookingCancelled pf ev pl s e a hE hN loc u n from)) =
     [ics_event_attributes
        \<lparr> ics_uid = u, ics_title = or_default (title pl) (str ''Meeting''),
          ics_description = description pl, ics_start = s, ics_end = e,
          ics_organizer = \<lparr> name = hN, email = hE \<rparr>,
          ics_attendee = \<lparr> name = name a, email = email a \<rparr>,
          ics_location = Some loc, ics_sequence = Some (js_plus_one n),
          ics_status = CANCELLED, ics_method = CANCEL \<rparr>]"
  unfolding handleBookingCancelled_def
  by (auto simp: built_invites_append Let_def
      split: prod.splits sum.splits
      dest!: buildIcsString_effects sendPostmarkEmail_effects)

lemma js_plus_one_exact:
  "- 9007199254740992 \<le> n \<Longrightarrow> n < 9007199254740992 \<Longrightarrow> js_plus_one n = n + 1"
  by (simp add: js_plus_one_def)

lemma ev_sequence_attrs: "ev_sequence (ics_event_attributes p) = (case ics_sequence p of None \<Rightarrow> 0 | Some n \<Rightarrow> n)"
  by (simp add: ics_event_attributes_def Let_def)

lemma dispatch_eq:
  "dispatch pf ev evt trigger effs =
     (let pl = booking_of evt in
      if \<not> truthy (startTime pl) \<or> \<not> truthy (endTime pl) then
        (\<lparr> status = 200, json = SkippedBody (str ''missing start/end time'') \<rparr>, effs)
      else
        (case first_attendee pl of
           None \<Rightarrow> (\<lparr> status = 200, json = SkippedBody (str ''no attendee email'') \<rparr>, effs)
         | Some a \<Rightarrow>
             if email a = [] then
               (\<lparr> status = 200, json = SkippedBody (str ''no attendee email'') \<rparr>, effs)
             else if \<not> truthy (host_email pl) then
               (\<lparr> status = 200, json = SkippedBody (str ''no host email'') \<rparr>, effs)
             else if \<not> truthy (POSTMARK_FROM_EMAIL ev) then
               (\<lparr> status = 500, json = ErrorBody (str ''Server configuration error'') \<rparr>,
                effs @ [ConsoleError (str ''POSTMARK_FROM_EMAIL not configured'') None])
             else
               try_handlers pf ev pl trigger (new_Date pf (the (startTime pl)))
                 (new_Date pf (the (endTime pl))) a (the (host_email pl)) (host_name pl)
                 (location_of pl) (extract_bookingUid pf pl) (sequence_of pl)
                 (the (POSTMARK_FROM_EMAIL ev)) effs))"
proof -
  define pl where "pl = booking_of evt"
  have pl: "(case payload evt of Some p \<Rightarrow> p | None \<Rightarrow> booking_payload.truncate evt) = pl"
    by (simp add: pl_def booking_of_def)
  define atts where "atts = (case attendees pl of Some l \<Rightarrow> l
                     | None \<Rightarrow> (case attendeesList pl of Some l \<Rightarrow> l | None \<Rightarrow> []))"
  have fa: "first_attendee pl = (case atts of [] \<Rightarrow> None | a # _ \<Rightarrow> Some a)"
    by (simp add: first_attendee_def atts_def)
  show ?thesis
    unfolding dispatch_def pl pl_def [symmetric] fa atts_def [symmetric] Let_def
      host_email_def host_name_def location_of_def sequence_of_def
    by (cases atts) simp_all
qed

lemma dispatch_skips:
  assumes "missing_required_field (booking_of evt)"
  shows "\<exists>reason. reason \<in> set skip_reasons \<and>
           dispatch pf ev evt trigger effs = (\<lparr> status = 200, json = SkippedBody reason \<rparr>, effs)"
  using assms unfolding dispatch_eq missing_required_field_def skip_reasons_def Let_def
  by (cases "first_attendee (booking_of evt)") (auto simp: truthy_def)

lemma timingSafeEqual_iff: "timingSafeEqual a b \<longleftrightarrow> utf8_encode a = utf8_encode b"
  by (auto simp: timingSafeEqual_def Let_def)

lemma timingSafeEqual_hex: "timingSafeEqual a (hex_encode bs) \<longleftrightarrow> a = hex_encode bs"
proof -
  have "\<forall>u \<in> set (hex_encode bs). is_ascii u" using hex_encode_chars by blast
  then show ?thesis
    unfolding timingSafeEqual_iff using utf8_encode_ascii_inj by blast
qed

lemma handler_rejects:
  assumes "req_method req = str ''POST''" "truthy (CAL_WEBHOOK_SECRET ev)"
    "x_cal_signature_256 req \<noteq> Some (computedSig pf (the (CAL_WEBHOOK_SECRET ev)) (readRawBody req))"
  shows "handler pf ev req =
           (\<lparr> status = 401, json = ErrorBody (str ''Invalid signature'') \<rparr>,
            [ConsoleError (str ''Invalid webhook signature'') None])"
proof -
  have "or_default (x_cal_signature_256 req) [] = []
        \<or> \<not> timingSafeEqual (or_default (x_cal_signature_256 req) [])
               (computedSig pf (the (CAL_WEBHOOK_SECRET ev)) (readRawBody req))"
    using assms(3) unfolding computedSig_def timingSafeEqual_hex
    by (cases "x_cal_signature_256 req") (auto simp: or_default_def)
  then show ?thesis
    using assms(1,2) unfolding handler_def Let_def by simp
qed

lemma handler_accepted:
  assumes "accepted pf ev req evt"
  shows "handler pf ev req =
           (if normalizeTrigger pf (the_trigger evt) = Unknown then
              (\<lparr> status = 200, json = IgnoredBody (the_trigger evt) \<rparr>,
               [JsonParse (readRawBody req)])
            else dispatch pf ev evt (normalizeTrigger pf (the_trigger evt))
                   [JsonParse (readRawBody req)])"
proof -
  define sig where "sig = computedSig pf (the (CAL_WEBHOOK_SECRET ev)) (readRawBody req)"
  have a: "req_method req = str ''POST''" "truthy (CAL_WEBHOOK_SECRET ev)"
    "truthy (x_cal_signature_256 req)" "x_cal_signature_256 req = Some sig"
    "JSON_parse pf (readRawBody req) = Some evt"
    using assms unfolding accepted_def sig_def by blast+
  have r: "or_default (x_cal_signature_256 req) [] = sig" "sig \<noteq> []"
    using a(3,4) by (simp_all add: or_default_def truthy_def)
  have t: "timingSafeEqual sig sig" by (simp add: timingSafeEqual_iff)
  show ?thesis
    unfolding handler_def Let_def sig_def [symmetric] r
    using a(1,2,5) r(2) t by simp
qed


lemma sendPostmarkEmail_no_token:
  "\<not> truthy (POSTMARK_SERVER_API_TOKEN ev) \<Longrightarrow>
     sendPostmarkEmail pf ev params =
       (Inl (Error (str ''Missing POSTMARK_SERVER_API_TOKEN environment variable'')), [])"
  by (simp add: sendPostmarkEmail_def)

lemma sendPostmarkEmail_sent:
  "truthy (POSTMARK_SERVER_API_TOKEN ev) \<Longrightarrow>
     sent_emails (snd (sendPostmarkEmail pf ev params)) =
       [\<lparr> fr_url = str ''https://api.postmarkapp.com/email'',
          fr_method = str ''POST'',
          fr_token = the (POSTMARK_SERVER_API_TOKEN ev),
          fr_content_type = str ''application/json'',
          fr_accept = str ''application/json'',
          fr_body = postmark_message_of params \<rparr>]"
  by (simp add: sendPostmarkEmail_def Let_def split: sum.splits)

lemma buildIcsString_cases:
  "buildIcsString pf params =
     (case ce_error (createEvent pf (ics_event_attributes params)) of
        Some e \<Rightarrow> Inl e
      | None \<Rightarrow> Inr (or_default (ce_value (createEvent pf (ics_event_attributes params))) []),
      [CreateEvent (ics_event_attributes params)])"
  by (simp add: buildIcsString_def Let_def split: option.splits)

text \<open>Without the API token each handler throws and nothing is sent.\<close>

lemma handlers_no_token:
  assumes "\<not> truthy (POSTMARK_SERVER_API_TOKEN ev)"
  shows "\<exists>e effs. handleBookingCreated pf ev pl s e' a hE hN loc u n from = (Inl e, effs)
            \<and> sent_emails effs = []"
    "\<exists>e effs. handleBookingRescheduled pf ev pl s e' a hE hN loc u n from = (Inl e, effs)
            \<and> sent_emails effs = []"
    "\<exists>e effs. handleBookingCancelled pf ev pl s e' a hE hN loc u n from = (Inl e, effs)
            \<and> sent_emails effs = []"
  unfolding handleBookingCreated_def handleBookingRescheduled_def handleBookingCancelled_def
    buildIcsString_cases sendPostmarkEmail_no_token [OF assms]
  by (simp_all split: option.splits)

lemma try_handlers_no_token:
  assumes "\<not> truthy (POSTMARK_SERVER_API_TOKEN ev)" "trigger \<noteq> Unknown"
  shows "status (fst (try_handlers pf ev pl trigger s e a hE hN loc u n from effs)) = 500
         \<and> sent_emails (snd (try_handlers pf ev pl trigger s e a hE hN loc u n from effs))
             = sent_emails effs"
proof -
  obtain err effs' where
    "(if trigger = BOOKING_CREATED then
              handleBookingCreated pf ev pl s e a hE hN loc u n from
            else if trigger = BOOKING_RESCHEDULED then
              handleBookingRescheduled pf ev pl s e a hE hN loc u n from
            else if trigger = BOOKING_CANCELLED then
              handleBookingCancelled pf ev pl s e a hE hN loc u n from
            else (Inr (), [])) = (Inl err, effs')" "sent_emails effs' = []"
    using handlers_no_token [OF assms(1), of pf pl s e a hE hN loc u n "from"] assms(2)
    by (cases trigger) auto
  then show ?thesis
    unfolding try_handlers_def by (simp add: sent_emails_append)
qed

lemma dispatch_processes:
  assumes "\<not> missing_required_field (booking_of evt)" "truthy (POSTMARK_FROM_EMAIL ev)"
  shows "\<exists>a. first_attendee (booking_of evt) = Some a \<and>
           dispatch pf ev evt trigger effs =
             try_handlers pf ev (booking_of evt) trigger
               (new_Date pf (the (startTime (booking_of evt))))
               (new_Date pf (the (endTime (booking_of evt)))) a
               (the (host_email (booking_of evt))) (host_name (booking_of evt))
               (location_of (booking_of evt)) (extract_bookingUid pf (booking_of evt))
               (sequence_of (booking_of evt)) (the (POSTMARK_FROM_EMAIL ev)) effs"
  using assms unfolding dispatch_eq missing_required_field_def Let_def
  by (cases "first_attendee (booking_of evt)") (auto simp: truthy_def)

lemma dispatch_no_from:
  assumes "\<not> missing_required_field (booking_of evt)" "\<not> truthy (POSTMARK_FROM_EMAIL ev)"
  shows "dispatch pf ev evt trigger effs =
           (\<lparr> status = 500, json = ErrorBody (str ''Server configuration error'') \<rparr>,
            effs @ [ConsoleError (str ''POSTMARK_FROM_EMAIL not configured'') None])"
  using assms unfolding dispatch_eq missing_required_field_def Let_def
  by (cases "first_attendee (booking_of evt)") (auto simp: truthy_def)

lemma try_handlers_invites:
  assumes "trigger \<noteq> Unknown"
  shows "built_invites (snd (try_handlers pf ev pl trigger s e a hE hN loc u n from effs)) =
           built_invites effs
           @ [ics_event_attributes (invite_params trigger pl s e a hE hN loc u n)]"
proof -
  let ?r = "(if trigger = BOOKING_CREATED then
              handleBookingCreated pf ev pl s e a hE hN loc u n from
            else if trigger = BOOKING_RESCHEDULED then
              handleBookingRescheduled pf ev pl s e a hE hN loc u n from
            else if trigger = BOOKING_CANCELLED then
              handleBookingCancelled pf ev pl s e a hE hN loc u n from
            else (Inr (), []))"
  have "built_invites (snd ?r) = [ics_event_attributes (invite_params trigger pl s e a hE hN loc u n)]"
    using assms
    by (cases trigger)
      (simp_all add: handleBookingCreated_invites handleBookingRescheduled_invites
        handleBookingCancelled_invites invite_params_def)
  then show ?thesis
    unfolding try_handlers_def
    by (cases ?r rule: prod.exhaust [where 'a = "js_error + unit"])
      (auto simp: built_invites_append split: sum.splits)
qed


text \<open>
  The identifier falls back to \<open>crypto.randomUUID()\<close> only when \<open>bookingId\<close> is the
  empty string and the three other identifiers are missing or empty.
\<close>

lemma extract_bookingUid_cases:
  "extract_bookingUid pf pl =
     (if truthy (iCalUID pl) then the (iCalUID pl)
      else if truthy (bookingUid pl) then the (bookingUid pl)
      else if truthy (uid pl) then the (uid pl)
      else if bookingId pl = Some (S []) then randomUUID pf
      else String_bookingId (bookingId pl))"
proof -
  have "String_bookingId b = [] \<longleftrightarrow> b = Some (S [])" for b
  proof (cases b)
    case None
    then show ?thesis by (simp add: String_bookingId_def str_def)
  next
    case (Some v)
    show ?thesis
    proof (cases v)
      case (S s)
      with Some show ?thesis by (simp add: String_bookingId_def)
    next
      case (N n)
      have "decimal_digits k \<noteq> []" for k
        by (subst decimal_digits.simps) simp
      with Some N show ?thesis by (simp add: String_bookingId_def String_number_def)
    qed
  qed
  then show ?thesis
    by (auto simp: extract_bookingUid_def js_or_def or_default_def truthy_def
        split: option.splits)
qed

lemmas sample_defs =
  sample_platform_def built_ok_def built_error_def answered_ok_def sample_env_def
  sample_request_def empty_booking_def sample_booking_def sample_event_def
  sample_ics_params_def sample_email_def sample_Date_def

lemmas eval_defs =
  truthy_def js_or_def or_default_def str_def the_trigger_def normalizeTrigger_def
  is_ascii_def ascii_upper_def is_space_def computedSig_def readRawBody_def
  utf8_to_string_def utf16_cp_def is_cont_def second_ok_def hex_encode_def hex_digit_def
  utf8_unit_def utf8_cp_def
  is_surrogate_def is_high_surrogate_def is_low_surrogate_def
  booking_of_def first_attendee_def host_email_def host_name_def location_of_def
  sequence_of_def missing_required_field_def accepted_def
  booking_payload.extend_def booking_payload.truncate_def

lemma sample_accepted:
  "accepted (sample_platform (Some evt) built answered) sample_env sample_request evt"
  by (simp add: sample_defs eval_defs utf16_cp_def)

lemma sample_trigger:
  "normalizeTrigger (sample_platform p built answered)
     (the_trigger (sample_event (str ''BOOKING_CREATED'') b)) = BOOKING_CREATED"
  by (simp add: sample_defs eval_defs)

lemma sample_trigger_rescheduled:
  "normalizeTrigger (sample_platform p built answered)
     (the_trigger (sample_event (str ''BOOKING_RESCHEDULED'') b)) = BOOKING_RESCHEDULED"
  by (simp add: sample_defs eval_defs)

lemma sample_booking_of: "booking_of (sample_event t b) = b"
  by (simp add: sample_defs eval_defs)

lemmas date_defs =
  utc_time_def time_at_offset_def DayFromYear_def days_before_month_def leap_year_def
  valid_civil_def days_in_month_def

lemma try_handlers_no_token_response:
  assumes "\<not> truthy (POSTMARK_SERVER_API_TOKEN ev)" "trigger \<noteq> Unknown"
  shows "fst (try_handlers pf ev pl trigger s e a hE hN loc u n from effs) =
           \<lparr> status = 500, json = ErrorBody (str ''Failed to process webhook'') \<rparr>"
proof -
  obtain err effs' where
    "(if trigger = BOOKING_CREATED then
              handleBookingCreated pf ev pl s e a hE hN loc u n from
            else if trigger = BOOKING_RESCHEDULED then
              handleBookingRescheduled pf ev pl s e a hE hN loc u n from
            else if trigger = BOOKING_CANCELLED then
              handleBookingCancelled pf ev pl s e a hE hN loc u n from
            else (Inr (), [])) = (Inl err, effs')"
    using handlers_no_token [OF assms(1), of pf pl s e a hE hN loc u n "from"] assms(2)
    by (cases trigger) auto
  then show ?thesis
    unfolding try_handlers_def by simp
qed

lemma keyword_chars:
  "\<forall>u \<in> set (str ''CREATED''). is_ascii u \<and> \<not> is_space u"
  "\<forall>u \<in> set (str ''RESCHEDULED''). is_ascii u \<and> \<not> is_space u"
  "\<forall>u \<in> set (str ''CANCEL''). is_ascii u \<and> \<not> is_space u"
  "str ''CREATED'' \<noteq> []" "str ''RESCHEDULED'' \<noteq> []" "str ''CANCEL'' \<noteq> []"
  by (simp_all add: str_def is_ascii_def is_space_def)

lemma whole_includes:
  "str_includes (str ''BOOKING_CREATED'') (str ''CREATED'')"
  "str_includes (str ''BOOKING_RESCHEDULED'') (str ''RESCHEDULED'')"
  "str_includes (str ''BOOKING_CANCELLED'') (str ''CANCEL'')"
  by (simp_all add: str_def)

lemma normalizeTrigger_cascade:
  "normalizeTrigger pf tr =
     (if str_includes (normalised pf tr) (str ''CREATED'') then BOOKING_CREATED
      else if str_includes (normalised pf tr) (str ''RESCHEDULED'') then BOOKING_RESCHEDULED
      else if str_includes (normalised pf tr) (str ''CANCEL'') then BOOKING_CANCELLED
      else Unknown)"
proof (cases "truthy tr")
  case True
  then obtain t where t: "tr = Some t" by (cases tr) (auto simp: truthy_def)
  show ?thesis
    using True whole_includes
    unfolding normalizeTrigger_def normalised_def t Let_def by auto
next
  case False
  then have "normalised pf tr = []"
    by (cases tr) (auto simp: truthy_def normalised_def)
  then show ?thesis
    using False keyword_chars(4-6) by (simp add: normalizeTrigger_def)
qed

lemma colon: "str '':'' = [0x3A]"
  by (simp add: str_def)

lemma split_encrypted:
  "split_on 0x3A (hex_encode iv @ str '':'' @ hex_encode c)
     = hex_encode iv # split_on 0x3A (hex_encode c)"
proof -
  have "0x3A \<notin> set (hex_encode iv)" using hex_encode_chars by blast
  then show ?thesis by (simp add: colon split_on_prefix)
qed

lemma replicate_16:
  "replicate 16 x = [x, x, x, x, x, x, x, x, x, x, x, x, x, x, x, x]"
  by (simp add: numeral_eq_Suc)

lemma sample_crypto_inverts: "cipher_inverts sample_crypto"
  by (simp add: cipher_inverts_def sample_crypto_def)

section \<open>The claims\<close>

text \<open>
  C1. For every POST request received with the shared secret configured, the handler
  decodes the raw body as UTF-8 text, computes HMAC-SHA256 with the shared secret over
  the UTF-8 encoding of that text, and compares its hex digest with the
  \<open>X-Cal-Signature-256\<close> header; whenever the header is absent or differs from the
  computed digest, the response is HTTP 401, the body is not parsed, no invite is built
  and no email is submitted. The bytes the digest covers are the exact raw body whenever
  the raw body is the UTF-8 encoding of a well-formed string.
\<close>

theorem handler_rejects_bad_signature:
  assumes "req_method req = str ''POST''" "truthy (CAL_WEBHOOK_SECRET ev)"
    "x_cal_signature_256 req \<noteq>
       Some (hex_encode (hmac_sha256 pf (utf8_encode (the (CAL_WEBHOOK_SECRET ev)))
                           (utf8_encode (utf8_to_string (concat (chunks req))))))"
  shows "fst (handler pf ev req) = \<lparr> status = 401, json = ErrorBody (str ''Invalid signature'') \<rparr>
    \<and> parsed_bodies (snd (handler pf ev req)) = []
    \<and> built_invites (snd (handler pf ev req)) = []
    \<and> sent_emails (snd (handler pf ev req)) = []
    \<and> (\<forall>text. well_formed text \<and> concat (chunks req) = utf8_encode text \<longrightarrow>
          utf8_encode (utf8_to_string (concat (chunks req))) = concat (chunks req))"
proof -
  have "x_cal_signature_256 req \<noteq>
      Some (computedSig pf (the (CAL_WEBHOOK_SECRET ev)) (readRawBody req))"
    using assms(3) by (simp add: computedSig_def readRawBody_def)
  then have "handler pf ev req =
           (\<lparr> status = 401, json = ErrorBody (str ''Invalid signature'') \<rparr>,
            [ConsoleError (str ''Invalid webhook signature'') None])"
    using assms(1,2) by (intro handler_rejects)
  then show ?thesis by (simp add: utf8_roundtrip)
qed

theorem handler_rejects_bad_signature_witness:
  "req_method (sample_request \<lparr> x_cal_signature_256 := None \<rparr>) = str ''POST''
   \<and> truthy (CAL_WEBHOOK_SECRET sample_env)
   \<and> fst (handler (sample_platform (Some (sample_event (str ''BOOKING_CREATED'') sample_booking))
                   built_ok answered_ok) sample_env
             (sample_request \<lparr> x_cal_signature_256 := None \<rparr>))
       = \<lparr> status = 401, json = ErrorBody (str ''Invalid signature'') \<rparr>
   \<and> fst (handler (sample_platform (Some (sample_event (str ''BOOKING_CREATED'') sample_booking))
                   built_ok answered_ok) sample_env
             (sample_request \<lparr> x_cal_signature_256 := Some (str ''74'') \<rparr>))
       = \<lparr> status = 401, json = ErrorBody (str ''Invalid signature'') \<rparr>"
proof -
  let ?pf = "sample_platform (Some (sample_event (str ''BOOKING_CREATED'') sample_booking))
               built_ok answered_ok"
  have p: "req_method (sample_request \<lparr> x_cal_signature_256 := h \<rparr>) = str ''POST''" for h
    by (simp add: sample_request_def)
  have s: "truthy (CAL_WEBHOOK_SECRET sample_env)"
    by (simp add: sample_env_def truthy_def str_def)
  have d: "hex_encode (hmac_sha256 ?pf (utf8_encode (the (CAL_WEBHOOK_SECRET sample_env)))
             (utf8_encode (utf8_to_string
                (concat (chunks (sample_request \<lparr> x_cal_signature_256 := h \<rparr>))))))
           = str ''737b7d''" for h
    by (simp add: sample_defs eval_defs)
  have n: "x_cal_signature_256 (sample_request \<lparr> x_cal_signature_256 := None \<rparr>) \<noteq>
       Some (hex_encode (hmac_sha256 ?pf (utf8_encode (the (CAL_WEBHOOK_SECRET sample_env)))
               (utf8_encode (utf8_to_string
                  (concat (chunks (sample_request \<lparr> x_cal_signature_256 := None \<rparr>)))))))"
    by simp
  have w: "x_cal_signature_256 (sample_request \<lparr> x_cal_signature_256 := Some (str ''74'') \<rparr>) \<noteq>
       Some (hex_encode (hmac_sha256 ?pf (utf8_encode (the (CAL_WEBHOOK_SECRET sample_env)))
               (utf8_encode (utf8_to_string
                  (concat (chunks (sample_request \<lparr> x_cal_signature_256 := Some (str ''74'') \<rparr>)))))))"
    unfolding d by (simp add: str_def)
  show ?thesis
    using handler_rejects_bad_signature [OF p s n] handler_rejects_bad_signature [OF p s w] p s
    by simp
qed

theorem signature_counterexample:
  "x_cal_signature_256 (sample_request \<lparr> x_cal_signature_256 := Some (str ''73efbfbd''),
                                        chunks := [[0xFF]] \<rparr>)
     \<noteq> Some (hex_encode
               (hmac_sha256 (sample_platform None built_ok answered_ok)
                  (utf8_encode (the (CAL_WEBHOOK_SECRET sample_env)))
                  (concat (chunks (sample_request \<lparr> x_cal_signature_256 := Some (str ''73efbfbd''),
                                                  chunks := [[0xFF]] \<rparr>)))))
   \<and> handler (sample_platform None built_ok answered_ok) sample_env
        (sample_request \<lparr> x_cal_signature_256 := Some (str ''73efbfbd''), chunks := [[0xFF]] \<rparr>)
     = (\<lparr> status = 400, json = ErrorBody (str ''Invalid JSON'') \<rparr>, [JsonParse [0xFFFD]])
   \<and> handler (sample_platform None built_ok answered_ok)
        (sample_env \<lparr> CAL_WEBHOOK_SECRET := None \<rparr>)
        (sample_request \<lparr> x_cal_signature_256 := None \<rparr>)
     = (\<lparr> status = 500, json = ErrorBody (str ''Server configuration error'') \<rparr>,
        [ConsoleError (str ''CAL_WEBHOOK_SECRET not configured'') None])"
  by (simp add: sample_defs eval_defs handler_def timingSafeEqual_def Let_def)

text \<open>
  C2. Classification matches keywords in the trigger text after uppercasing and
  replacing white space with underscores, in this order: a text containing CREATED
  classifies as created; otherwise one containing RESCHEDULED as rescheduled; otherwise
  one containing CANCEL as cancelled; anything else, a missing trigger too, as unknown.
  A keyword written in any mix of upper and lower case in the trigger is found. The
  texts \<open>BOOKING_CREATED\<close>, \<open>Booking Created\<close> and \<open>booking.created\<close> classify as
  created. A request with a valid signature and a body that parses whose trigger is
  unknown is acknowledged with HTTP 200 and nothing else is done.
\<close>

theorem trigger_classification:
  "normalizeTrigger pf tr =
     (if str_includes (normalised pf tr) (str ''CREATED'') then BOOKING_CREATED
      else if str_includes (normalised pf tr) (str ''RESCHEDULED'') then BOOKING_RESCHEDULED
      else if str_includes (normalised pf tr) (str ''CANCEL'') then BOOKING_CANCELLED
      else Unknown)
   \<and> (str_includes (map ascii_upper t) (str ''CREATED'') \<longrightarrow>
        normalizeTrigger pf (Some t) = BOOKING_CREATED)
   \<and> (str_includes (map ascii_upper t) (str ''RESCHEDULED'')
        \<and> \<not> str_includes (normalised pf (Some t)) (str ''CREATED'') \<longrightarrow>
        normalizeTrigger pf (Some t) = BOOKING_RESCHEDULED)
   \<and> (str_includes (map ascii_upper t) (str ''CANCEL'')
        \<and> \<not> str_includes (normalised pf (Some t)) (str ''CREATED'')
        \<and> \<not> str_includes (normalised pf (Some t)) (str ''RESCHEDULED'') \<longrightarrow>
        normalizeTrigger pf (Some t) = BOOKING_CANCELLED)
   \<and> normalizeTrigger pf (Some (str ''BOOKING_CREATED'')) = BOOKING_CREATED
   \<and> normalizeTrigger pf (Some (str ''Booking Created'')) = BOOKING_CREATED
   \<and> normalizeTrigger pf (Some (str ''booking.created'')) = BOOKING_CREATED
   \<and> (accepted pf ev req evt \<and> normalizeTrigger pf (the_trigger evt) = Unknown \<longrightarrow>
        handler pf ev req =
          (\<lparr> status = 200, json = IgnoredBody (the_trigger evt) \<rparr>,
           [JsonParse (readRawBody req)]))"
proof -
  have n: "str_includes (normalised pf (Some t)) w"
    if "str_includes (map ascii_upper t) w" "w \<noteq> []" "\<forall>u \<in> set w. is_ascii u \<and> \<not> is_space u"
    for t w
    using normalised_includes [OF that] by (simp add: normalised_def)
  have 1: "str_includes (normalised pf (Some t)) (str ''CREATED'')"
    if "str_includes (map ascii_upper t) (str ''CREATED'')" for t
    using n [OF that keyword_chars(4) keyword_chars(1)] .
  have 2: "str_includes (normalised pf (Some t)) (str ''RESCHEDULED'')"
    if "str_includes (map ascii_upper t) (str ''RESCHEDULED'')"
    using n [OF that keyword_chars(5) keyword_chars(2)] .
  have 3: "str_includes (normalised pf (Some t)) (str ''CANCEL'')"
    if "str_includes (map ascii_upper t) (str ''CANCEL'')"
    using n [OF that keyword_chars(6) keyword_chars(3)] .
  have e: "str_includes (map ascii_upper (str ''BOOKING_CREATED'')) (str ''CREATED'')"
    "str_includes (map ascii_upper (str ''Booking Created'')) (str ''CREATED'')"
    "str_includes (map ascii_upper (str ''booking.created'')) (str ''CREATED'')"
    by (simp_all add: str_def ascii_upper_def)
  show ?thesis
    using 1 [OF e(1)] 1 [OF e(2)] 1 [OF e(3)] 1 2 3 handler_accepted [of pf ev req evt]
    unfolding normalizeTrigger_cascade by auto
qed

theorem trigger_classification_witness:
  "normalizeTrigger (sample_platform None built_ok answered_ok) (Some (str ''Booking Created''))
     = BOOKING_CREATED
   \<and> str_includes (map ascii_upper (str ''Event: created'')) (str ''CREATED'')
   \<and> normalizeTrigger (sample_platform None built_ok answered_ok) (Some (str ''Event: created''))
     = BOOKING_CREATED
   \<and> normalizeTrigger (sample_platform None built_ok answered_ok)
        (Some (str ''booking rescheduled'')) = BOOKING_RESCHEDULED
   \<and> normalizeTrigger (sample_platform None built_ok answered_ok)
        (Some (str ''Booking.Cancelled'')) = BOOKING_CANCELLED
   \<and> normalizeTrigger (sample_platform None built_ok answered_ok)
        (Some (str ''MEETING_ENDED'')) = Unknown
   \<and> handler (sample_platform (Some (sample_event (str ''MEETING_ENDED'') sample_booking))
                built_ok answered_ok) sample_env sample_request
       = (\<lparr> status = 200, json = IgnoredBody (Some (str ''MEETING_ENDED'')) \<rparr>,
          [JsonParse (str ''{}'')])"
proof -
  let ?pf = "sample_platform None built_ok answered_ok"
  let ?evt = "sample_event (str ''MEETING_ENDED'') sample_booking"
  let ?pf' = "sample_platform (Some ?evt) built_ok answered_ok"
  have a: "accepted ?pf' sample_env sample_request ?evt" by (rule sample_accepted)
  have u: "normalizeTrigger ?pf' (the_trigger ?evt) = Unknown"
    by (simp add: sample_defs eval_defs)
  have r: "readRawBody sample_request = str ''{}''"
    "the_trigger ?evt = Some (str ''MEETING_ENDED'')"
    by (simp_all add: sample_defs eval_defs utf16_cp_def)
  have 1: "str_includes (map ascii_upper (str ''booking rescheduled'')) (str ''RESCHEDULED'')
       \<and> \<not> str_includes (normalised ?pf (Some (str ''booking rescheduled''))) (str ''CREATED'')"
    by (simp add: sample_defs eval_defs normalised_def)
  have 2: "str_includes (map ascii_upper (str ''Booking.Cancelled'')) (str ''CANCEL'')
       \<and> \<not> str_includes (normalised ?pf (Some (str ''Booking.Cancelled''))) (str ''CREATED'')
       \<and> \<not> str_includes (normalised ?pf (Some (str ''Booking.Cancelled''))) (str ''RESCHEDULED'')"
    by (simp add: sample_defs eval_defs normalised_def)
  have 3: "normalizeTrigger ?pf (Some (str ''MEETING_ENDED'')) = Unknown"
    by (simp add: sample_defs eval_defs)
  have 4: "str_includes (map ascii_upper (str ''Event: created'')) (str ''CREATED'')"
    by (simp add: str_def ascii_upper_def)
  show ?thesis
    using trigger_classification [of ?pf "Some (str ''MEETING_ENDED'')" "str ''Event: created''"] 4
      trigger_classification [of ?pf "Some (str ''MEETING_ENDED'')" "str ''booking rescheduled''"]
      trigger_classification [of ?pf' "Some (str ''MEETING_ENDED'')" "str ''Booking.Cancelled''"
         sample_env sample_request ?evt]
      trigger_classification [of ?pf "Some (str ''MEETING_ENDED'')" "str ''Booking.Cancelled''"]
      a u r 1 2 3
    by simp
qed

theorem trigger_precedence_counterexample:
  "str_includes (normalised (sample_platform None built_ok answered_ok)
                   (Some (str ''BOOKING_CREATED_THEN_RESCHEDULED''))) (str ''RESCHEDULED'')
   \<and> normalizeTrigger (sample_platform None built_ok answered_ok)
        (Some (str ''BOOKING_CREATED_THEN_RESCHEDULED'')) = BOOKING_CREATED"
  by (simp add: sample_defs eval_defs normalised_def)

text \<open>
  C3. For every booking snapshot carrying sequence \<open>n\<close>, the created handler builds
  exactly one invite, with sequence exactly \<open>n\<close>. The rescheduled handler and the
  cancelled handler each build exactly one invite, and for every integer \<open>n\<close> with
  \<open>- 2\<^sup>5\<^sup>3 \<le> n < 2\<^sup>5\<^sup>3\<close> its sequence is exactly \<open>n + 1\<close>. From \<open>2\<^sup>5\<^sup>3\<close> on the sum is
  rounded to a double: at \<open>n = 2\<^sup>5\<^sup>3\<close> the two handlers build their invite with
  sequence \<open>n\<close>.
\<close>

theorem handlers_sequence:
  "map ev_sequence
     (built_invites (snd (handleBookingCreated pf ev pl s e a hE hN loc u n from))) = [n]
   \<and> length (built_invites (snd (handleBookingRescheduled pf ev pl s e a hE hN loc u n from))) = 1
   \<and> length (built_invites (snd (handleBookingCancelled pf ev pl s e a hE hN loc u n from))) = 1
   \<and> (- 9007199254740992 \<le> n \<and> n < 9007199254740992 \<longrightarrow>
        map ev_sequence
          (built_invites (snd (handleBookingRescheduled pf ev pl s e a hE hN loc u n from)))
          = [n + 1]
        \<and> map ev_sequence
          (built_invites (snd (handleBookingCancelled pf ev pl s e a hE hN loc u n from)))
          = [n + 1])"
  by (simp add: handleBookingCreated_invites handleBookingRescheduled_invites
      handleBookingCancelled_invites ev_sequence_attrs js_plus_one_exact)

theorem handlers_sequence_witness:
  "- 9007199254740992 \<le> (9007199254740991 :: int) \<and> (9007199254740991 :: int) < 9007199254740992
   \<and> map ev_sequence
       (built_invites
          (snd (handleBookingCreated (sample_platform None built_ok answered_ok) sample_env
                  sample_booking (Date 1704121200000) (Date 1704123000000)
                  \<lparr> name = None, email = str ''a@example.com'' \<rparr> (str ''h@example.com'')
                  None [] (str ''uid-1'') 9007199254740991 (str ''from@example.com''))))
       = [9007199254740991]
   \<and> map ev_sequence
       (built_invites
          (snd (handleBookingRescheduled (sample_platform None built_ok answered_ok) sample_env
                  sample_booking (Date 1704121200000) (Date 1704123000000)
                  \<lparr> name = None, email = str ''a@example.com'' \<rparr> (str ''h@example.com'')
                  None [] (str ''uid-1'') 9007199254740991 (str ''from@example.com''))))
       = [9007199254740992]
   \<and> map ev_sequence
       (built_invites
          (snd (handleBookingCancelled (sample_platform None built_ok answered_ok) sample_env
                  sample_booking (Date 1704121200000) (Date 1704123000000)
                  \<lparr> name = None, email = str ''a@example.com'' \<rparr> (str ''h@example.com'')
                  None [] (str ''uid-1'') 2 (str ''from@example.com''))))
       = [3]"
  using handlers_sequence [of "sample_platform None built_ok answered_ok" sample_env
      sample_booking "Date 1704121200000" "Date 1704123000000"
      "\<lparr> name = None, email = str ''a@example.com'' \<rparr>" "str ''h@example.com''" None "[]"
      "str ''uid-1''" 9007199254740991 "str ''from@example.com''"]
    handlers_sequence [of "sample_platform None built_ok answered_ok" sample_env
      sample_booking "Date 1704121200000" "Date 1704123000000"
      "\<lparr> name = None, email = str ''a@example.com'' \<rparr>" "str ''h@example.com''" None "[]"
      "str ''uid-1''" 2 "str ''from@example.com''"]
  by simp

theorem sequence_rounding_counterexample:
  "map ev_sequence
     (built_invites
        (snd (handleBookingRescheduled (sample_platform None built_ok answered_ok) sample_env
                sample_booking (Date 1704121200000) (Date 1704123000000)
                \<lparr> name = None, email = str ''a@example.com'' \<rparr> (str ''h@example.com'')
                None [] (str ''uid-1'') 9007199254740992 (str ''from@example.com''))))
     = [9007199254740992]
   \<and> map ev_sequence
     (built_invites
        (snd (handleBookingCancelled (sample_platform None built_ok answered_ok) sample_env
                sample_booking (Date 1704121200000) (Date 1704123000000)
                \<lparr> name = None, email = str ''a@example.com'' \<rparr> (str ''h@example.com'')
                None [] (str ''uid-1'') 9007199254740992 (str ''from@example.com''))))
     = [9007199254740992]
   \<and> map ev_sequence
     (built_invites
        (snd (handler
                (sample_platform
                   (Some (sample_event (str ''BOOKING_RESCHEDULED'')
                            (sample_booking \<lparr> iCalSequence := Some 9007199254740992 \<rparr>)))
                   built_ok answered_ok)
                sample_env sample_request)))
     = [9007199254740992]"
proof -
  let ?b = "sample_booking \<lparr> iCalSequence := Some 9007199254740992 \<rparr>"
  let ?evt = "sample_event (str ''BOOKING_RESCHEDULED'') ?b"
  let ?pf = "sample_platform (Some ?evt) built_ok answered_ok"
  have a: "accepted ?pf sample_env sample_request ?evt" by (rule sample_accepted)
  have t: "normalizeTrigger ?pf (the_trigger ?evt) = BOOKING_RESCHEDULED"
    by (simp add: sample_trigger_rescheduled)
  have m: "\<not> missing_required_field (booking_of ?evt)"
    by (simp add: sample_booking_of) (simp add: sample_defs eval_defs)
  have f: "truthy (POSTMARK_FROM_EMAIL sample_env)" by (simp add: sample_defs eval_defs)
  have q: "sequence_of (booking_of ?evt) = 9007199254740992"
    by (simp add: sample_booking_of) (simp add: sample_defs sequence_of_def)
  have h: "handler ?pf sample_env sample_request =
      dispatch ?pf sample_env ?evt BOOKING_RESCHEDULED [JsonParse (readRawBody sample_request)]"
    using handler_accepted [OF a] t by simp
  obtain at where "handler ?pf sample_env sample_request =
      try_handlers ?pf sample_env (booking_of ?evt) BOOKING_RESCHEDULED
               (new_Date ?pf (the (startTime (booking_of ?evt))))
               (new_Date ?pf (the (endTime (booking_of ?evt)))) at
               (the (host_email (booking_of ?evt))) (host_name (booking_of ?evt))
               (location_of (booking_of ?evt)) (extract_bookingUid ?pf (booking_of ?evt))
               (sequence_of (booking_of ?evt)) (the (POSTMARK_FROM_EMAIL sample_env))
               [JsonParse (readRawBody sample_request)]"
    using dispatch_processes [OF m f] h by metis
  then have "map ev_sequence (built_invites (snd (handler ?pf sample_env sample_request)))
      = [9007199254740992]"
    by (simp add: try_handlers_invites q ev_sequence_attrs invite_params_def js_plus_one_def)
  then show ?thesis
    by (simp add: handleBookingRescheduled_invites handleBookingCancelled_invites
        ev_sequence_attrs js_plus_one_def)
qed

text \<open>
  C4. For every request that is a POST with a valid signature and a body that parses,
  whose trigger is recognised and which misses a required extracted field (start time,
  end time, first attendee email or host email), the response is HTTP 200 with a body
  naming the skip reason, no email is submitted and no invite is built.
\<close>

theorem missing_field_skips:
  assumes "accepted pf ev req evt" "normalizeTrigger pf (the_trigger evt) \<noteq> Unknown"
    "missing_required_field (booking_of evt)"
  shows "fst (handler pf ev req) =
           \<lparr> status = 200,
             json = SkippedBody
               (if \<not> truthy (startTime (booking_of evt)) \<or> \<not> truthy (endTime (booking_of evt))
                  then str ''missing start/end time''
                else if \<not> truthy (map_option email (first_attendee (booking_of evt)))
                  then str ''no attendee email''
                else str ''no host email'') \<rparr>
         \<and> sent_emails (snd (handler pf ev req)) = []
         \<and> built_invites (snd (handler pf ev req)) = []"
proof -
  have h: "handler pf ev req =
      dispatch pf ev evt (normalizeTrigger pf (the_trigger evt)) [JsonParse (readRawBody req)]"
    using handler_accepted [OF assms(1)] assms(2) by simp
  show ?thesis
    using assms(3) unfolding h dispatch_eq missing_required_field_def Let_def
    by (cases "first_attendee (booking_of evt)") (auto simp: truthy_def)
qed

theorem missing_field_skips_witness:
  "accepted (sample_platform (Some (sample_event (str ''BOOKING_CREATED'')
                                      (sample_booking \<lparr> attendees := None \<rparr>)))
               built_ok answered_ok) sample_env sample_request
     (sample_event (str ''BOOKING_CREATED'') (sample_booking \<lparr> attendees := None \<rparr>))
   \<and> missing_required_field
        (booking_of (sample_event (str ''BOOKING_CREATED'')
                       (sample_booking \<lparr> attendees := None \<rparr>)))
   \<and> fst (handler (sample_platform (Some (sample_event (str ''BOOKING_CREATED'')
                                             (sample_booking \<lparr> attendees := None \<rparr>)))
                 built_ok answered_ok) sample_env sample_request)
       = \<lparr> status = 200, json = SkippedBody (str ''no attendee email'') \<rparr>
   \<and> sent_emails
         (snd (handler (sample_platform (Some (sample_event (str ''BOOKING_CREATED'')
                                                 (sample_booking \<lparr> attendees := None \<rparr>)))
                          built_ok answered_ok) sample_env sample_request)) = []
   \<and> built_invites
         (snd (handler (sample_platform (Some (sample_event (str ''BOOKING_CREATED'')
                                                 (sample_booking \<lparr> attendees := None \<rparr>)))
                          built_ok answered_ok) sample_env sample_request)) = []"
proof -
  let ?evt = "sample_event (str ''BOOKING_CREATED'') (sample_booking \<lparr> attendees := None \<rparr>)"
  let ?pf = "sample_platform (Some ?evt) built_ok answered_ok"
  have a: "accepted ?pf sample_env sample_request ?evt" by (rule sample_accepted)
  have t: "normalizeTrigger ?pf (the_trigger ?evt) \<noteq> Unknown" by (simp add: sample_trigger)
  have m: "missing_required_field (booking_of ?evt)"
    by (simp add: sample_booking_of) (simp add: sample_defs eval_defs)
  have "fst (handler ?pf sample_env sample_request)
          = \<lparr> status = 200, json = SkippedBody (str ''no attendee email'') \<rparr>"
    using missing_field_skips [OF a t m]
    by (simp add: sample_booking_of) (simp add: sample_defs eval_defs)
  with missing_field_skips [OF a t m] a m show ?thesis by simp
qed

text \<open>
  C5. For every invite input whose start and end are valid instants, the builder hands
  to the calendar library the UTC civil components (year, month counted from one, day,
  hour, minute) of the two instants, tagged as UTC; the instant carries no offset, so
  the components do not depend on the offset it was written with. The attendee's
  participation status is DECLINED and the busy status FREE when the lifecycle status is
  CANCELLED, and ACCEPTED and BUSY for any other status.
\<close>

theorem ics_civil_fields:
  assumes "ics_start params = Date (utc_time y1 m1 d1 h1 mi1 s1 ms1)"
    "valid_civil y1 m1 d1 h1 mi1 s1 ms1"
    "ics_end params = Date (utc_time y2 m2 d2 h2 mi2 s2 ms2)"
    "valid_civil y2 m2 d2 h2 mi2 s2 ms2"
  shows "built_invites (snd (buildIcsString pf params)) = [ics_event_attributes params]
    \<and> ev_start (ics_event_attributes params) = [Num y1, Num m1, Num d1, Num h1, Num mi1]
    \<and> ev_end (ics_event_attributes params) = [Num y2, Num m2, Num d2, Num h2, Num mi2]
    \<and> ev_startInputType (ics_event_attributes params) = str ''utc''
    \<and> map at_partstat (ev_attendees (ics_event_attributes params))
        = [if ics_status params = CANCELLED then DECLINED else ACCEPTED]
    \<and> ev_busyStatus (ics_event_attributes params)
        = (if ics_status params = CANCELLED then FREE else BUSY)"
  using civil_roundtrip [OF assms(2)] civil_roundtrip [OF assms(4)]
  by (simp add: buildIcsString_cases ics_event_attributes_def toDateArray_def Let_def
      assms(1,3))

theorem ics_civil_fields_witness:
  "ics_start (sample_ics_params CONFIRMED) = Date (utc_time 2024 1 1 15 0 0 0)
   \<and> ics_start (sample_ics_params CONFIRMED) = Date (time_at_offset 2024 1 1 10 0 0 0 (- 300))
   \<and> ics_end (sample_ics_params CONFIRMED) = Date (utc_time 2024 1 1 15 30 0 0)
   \<and> valid_civil 2024 1 1 15 0 0 0 \<and> valid_civil 2024 1 1 15 30 0 0
   \<and> ev_start (ics_event_attributes (sample_ics_params CONFIRMED))
       = [Num 2024, Num 1, Num 1, Num 15, Num 0]
   \<and> ev_end (ics_event_attributes (sample_ics_params CONFIRMED))
       = [Num 2024, Num 1, Num 1, Num 15, Num 30]
   \<and> map at_partstat (ev_attendees (ics_event_attributes (sample_ics_params CONFIRMED)))
       = [ACCEPTED]
   \<and> ev_busyStatus (ics_event_attributes (sample_ics_params CONFIRMED)) = BUSY
   \<and> map at_partstat (ev_attendees (ics_event_attributes (sample_ics_params CANCELLED)))
       = [DECLINED]
   \<and> ev_busyStatus (ics_event_attributes (sample_ics_params CANCELLED)) = FREE"
proof -
  have s: "ics_start (sample_ics_params st) = Date (utc_time 2024 1 1 15 0 0 0)" for st
    by (simp add: sample_ics_params_def date_defs)
  have o: "ics_start (sample_ics_params CONFIRMED)
             = Date (time_at_offset 2024 1 1 10 0 0 0 (- 300))"
    by (simp add: sample_ics_params_def date_defs)
  have e: "ics_end (sample_ics_params st) = Date (utc_time 2024 1 1 15 30 0 0)" for st
    by (simp add: sample_ics_params_def date_defs)
  have v: "valid_civil 2024 1 1 15 0 0 0" "valid_civil 2024 1 1 15 30 0 0"
    by (simp_all add: date_defs)
  have c: "ics_status (sample_ics_params st) = st" for st
    by (simp add: sample_ics_params_def)
  show ?thesis
    using ics_civil_fields [OF s [of CONFIRMED] v(1) e [of CONFIRMED] v(2)]
      ics_civil_fields [OF s [of CANCELLED] v(1) e [of CANCELLED] v(2)]
      s [of CONFIRMED] o e [of CONFIRMED] v
    by (simp add: c)
qed

text \<open>
  C6. A POST received without the webhook shared secret is answered with HTTP 500. A
  request that is a POST with a valid signature and a body that parses, with a recognised
  trigger and every required field, is answered with HTTP 500 when the verified sender
  address is absent, and with HTTP 500 when the sender address is present and the
  email-provider API token is absent; in none of these cases is an email submitted.
\<close>

theorem missing_configuration:
  "(req_method req = str ''POST'' \<and> \<not> truthy (CAL_WEBHOOK_SECRET ev) \<longrightarrow>
      fst (handler pf ev req)
        = \<lparr> status = 500, json = ErrorBody (str ''Server configuration error'') \<rparr>
      \<and> sent_emails (snd (handler pf ev req)) = [])
   \<and> (accepted pf ev req evt \<and> normalizeTrigger pf (the_trigger evt) \<noteq> Unknown
        \<and> \<not> missing_required_field (booking_of evt) \<and> \<not> truthy (POSTMARK_FROM_EMAIL ev) \<longrightarrow>
      fst (handler pf ev req)
        = \<lparr> status = 500, json = ErrorBody (str ''Server configuration error'') \<rparr>
      \<and> sent_emails (snd (handler pf ev req)) = []
      \<and> built_invites (snd (handler pf ev req)) = [])
   \<and> (accepted pf ev req evt \<and> normalizeTrigger pf (the_trigger evt) \<noteq> Unknown
        \<and> \<not> missing_required_field (booking_of evt) \<and> truthy (POSTMARK_FROM_EMAIL ev)
        \<and> \<not> truthy (POSTMARK_SERVER_API_TOKEN ev) \<longrightarrow>
      fst (handler pf ev req)
        = \<lparr> status = 500, json = ErrorBody (str ''Failed to process webhook'') \<rparr>
      \<and> sent_emails (snd (handler pf ev req)) = [])"
proof (intro conjI impI)
  assume a: "req_method req = str ''POST'' \<and> \<not> truthy (CAL_WEBHOOK_SECRET ev)"
  then have "handler pf ev req =
      (\<lparr> status = 500, json = ErrorBody (str ''Server configuration error'') \<rparr>,
       [ConsoleError (str ''CAL_WEBHOOK_SECRET not configured'') None])"
    by (simp add: handler_def)
  then show "fst (handler pf ev req)
        = \<lparr> status = 500, json = ErrorBody (str ''Server configuration error'') \<rparr>"
    "sent_emails (snd (handler pf ev req)) = []" by simp_all
next
  assume a: "accepted pf ev req evt \<and> normalizeTrigger pf (the_trigger evt) \<noteq> Unknown
        \<and> \<not> missing_required_field (booking_of evt) \<and> \<not> truthy (POSTMARK_FROM_EMAIL ev)"
  then have "handler pf ev req =
      dispatch pf ev evt (normalizeTrigger pf (the_trigger evt)) [JsonParse (readRawBody req)]"
    using handler_accepted [of pf ev req evt] by simp
  then have "handler pf ev req =
      (\<lparr> status = 500, json = ErrorBody (str ''Server configuration error'') \<rparr>,
       [JsonParse (readRawBody req)]
       @ [ConsoleError (str ''POSTMARK_FROM_EMAIL not configured'') None])"
    using a dispatch_no_from [of evt ev pf] by simp
  then show "fst (handler pf ev req)
        = \<lparr> status = 500, json = ErrorBody (str ''Server configuration error'') \<rparr>"
    "sent_emails (snd (handler pf ev req)) = []"
    "built_invites (snd (handler pf ev req)) = []" by simp_all
next
  assume a: "accepted pf ev req evt \<and> normalizeTrigger pf (the_trigger evt) \<noteq> Unknown
        \<and> \<not> missing_required_field (booking_of evt) \<and> truthy (POSTMARK_FROM_EMAIL ev)
        \<and> \<not> truthy (POSTMARK_SERVER_API_TOKEN ev)"
  then have h: "handler pf ev req =
      dispatch pf ev evt (normalizeTrigger pf (the_trigger evt)) [JsonParse (readRawBody req)]"
    using handler_accepted [of pf ev req evt] by simp
  obtain at where "handler pf ev req =
      try_handlers pf ev (booking_of evt) (normalizeTrigger pf (the_trigger evt))
               (new_Date pf (the (startTime (booking_of evt))))
               (new_Date pf (the (endTime (booking_of evt)))) at
               (the (host_email (booking_of evt))) (host_name (booking_of evt))
               (location_of (booking_of evt)) (extract_bookingUid pf (booking_of evt))
               (sequence_of (booking_of evt)) (the (POSTMARK_FROM_EMAIL ev))
               [JsonParse (readRawBody req)]"
    using dispatch_processes [of evt ev pf] a h by metis
  then show "fst (handler pf ev req)
        = \<lparr> status = 500, json = ErrorBody (str ''Failed to process webhook'') \<rparr>"
    "sent_emails (snd (handler pf ev req)) = []"
    using a try_handlers_no_token_response [of ev] try_handlers_no_token [of ev]
    by simp_all
qed

theorem missing_configuration_witness:
  "fst (handler (sample_platform (Some (sample_event (str ''BOOKING_CREATED'') sample_booking))
                   built_ok answered_ok)
          (sample_env \<lparr> CAL_WEBHOOK_SECRET := None \<rparr>) sample_request)
     = \<lparr> status = 500, json = ErrorBody (str ''Server configuration error'') \<rparr>
   \<and> fst (handler (sample_platform (Some (sample_event (str ''BOOKING_CREATED'') sample_booking))
                   built_ok answered_ok)
          (sample_env \<lparr> POSTMARK_FROM_EMAIL := None \<rparr>) sample_request)
     = \<lparr> status = 500, json = ErrorBody (str ''Server configuration error'') \<rparr>
   \<and> fst (handler (sample_platform (Some (sample_event (str ''BOOKING_CREATED'') sample_booking))
                   built_ok answered_ok)
          (sample_env \<lparr> POSTMARK_SERVER_API_TOKEN := None \<rparr>) sample_request)
     = \<lparr> status = 500, json = ErrorBody (str ''Failed to process webhook'') \<rparr>"
proof -
  let ?evt = "sample_event (str ''BOOKING_CREATED'') sample_booking"
  let ?pf = "sample_platform (Some ?evt) built_ok answered_ok"
  have 1: "req_method sample_request = str ''POST''
           \<and> \<not> truthy (CAL_WEBHOOK_SECRET (sample_env \<lparr> CAL_WEBHOOK_SECRET := None \<rparr>))"
    by (simp add: sample_defs truthy_def)
  have t: "normalizeTrigger ?pf (the_trigger ?evt) \<noteq> Unknown" by (simp add: sample_trigger)
  have m: "\<not> missing_required_field (booking_of ?evt)"
    by (simp add: sample_booking_of) (simp add: sample_defs eval_defs)
  have 2: "accepted ?pf (sample_env \<lparr> POSTMARK_FROM_EMAIL := None \<rparr>) sample_request ?evt
           \<and> \<not> truthy (POSTMARK_FROM_EMAIL (sample_env \<lparr> POSTMARK_FROM_EMAIL := None \<rparr>))"
    by (simp add: sample_defs eval_defs)
  have 3: "accepted ?pf (sample_env \<lparr> POSTMARK_SERVER_API_TOKEN := None \<rparr>) sample_request ?evt
           \<and> truthy (POSTMARK_FROM_EMAIL (sample_env \<lparr> POSTMARK_SERVER_API_TOKEN := None \<rparr>))
           \<and> \<not> truthy (POSTMARK_SERVER_API_TOKEN (sample_env \<lparr> POSTMARK_SERVER_API_TOKEN := None \<rparr>))"
    by (simp add: sample_defs eval_defs)
  show ?thesis
    using missing_configuration [of sample_request "sample_env \<lparr> CAL_WEBHOOK_SECRET := None \<rparr>" ?pf ?evt]
      missing_configuration [of sample_request "sample_env \<lparr> POSTMARK_FROM_EMAIL := None \<rparr>" ?pf ?evt]
      missing_configuration [of sample_request "sample_env \<lparr> POSTMARK_SERVER_API_TOKEN := None \<rparr>" ?pf ?evt]
      1 2 3 t m
    by blast
qed

theorem configuration_counterexample:
  "fst (handler (sample_platform (Some (sample_event (str ''PING'') sample_booking))
                   built_ok answered_ok)
          (sample_env \<lparr> POSTMARK_SERVER_API_TOKEN := None, POSTMARK_FROM_EMAIL := None \<rparr>)
          sample_request)
     = \<lparr> status = 200, json = IgnoredBody (Some (str ''PING'')) \<rparr>
   \<and> fst (handler (sample_platform None built_ok answered_ok)
          \<lparr> CAL_WEBHOOK_SECRET = None, POSTMARK_SERVER_API_TOKEN = None,
            POSTMARK_FROM_EMAIL = None \<rparr>
          (sample_request \<lparr> req_method := str ''GET'' \<rparr>))
     = \<lparr> status = 405, json = ErrorBody (str ''Method Not Allowed'') \<rparr>"
  by (simp add: sample_defs eval_defs handler_def timingSafeEqual_def Let_def)

text \<open>
  C7. For every invite input on which the calendar-encoding step reports an error,
  the builder throws that error; it returns no document, empty or otherwise.
\<close>

theorem buildIcsString_propagates:
  assumes "ce_error (createEvent pf (ics_event_attributes params)) = Some e"
  shows "fst (buildIcsString pf params) = Inl e
         \<and> (\<forall>doc. fst (buildIcsString pf params) \<noteq> Inr doc)"
  using assms by (simp add: buildIcsString_def Let_def)

theorem buildIcsString_propagates_witness:
  "ce_error (createEvent (sample_platform None built_error answered_ok)
               (ics_event_attributes (sample_ics_params CONFIRMED)))
     = Some (ValidationError (str ''invalid attendee''))
   \<and> fst (buildIcsString (sample_platform None built_error answered_ok)
            (sample_ics_params CONFIRMED))
     = Inl (ValidationError (str ''invalid attendee''))"
proof -
  have h: "ce_error (createEvent (sample_platform None built_error answered_ok)
               (ics_event_attributes (sample_ics_params CONFIRMED)))
     = Some (ValidationError (str ''invalid attendee''))"
    by (simp add: sample_platform_def built_error_def)
  from buildIcsString_propagates [OF h] h show ?thesis by simp
qed

text \<open>
  C8. For every send-email call made with the API token configured: when a calendar
  document is present (a non-empty string), the message submitted carries exactly one
  attachment, named \<open>invite.ics\<close>, whose content is the base64 encoding of the
  document's UTF-8 bytes and whose content type is
  \<open>text/calendar; method=M; charset="utf-8"\<close>, \<open>M\<close> being the supplied method and
  \<open>REQUEST\<close> when none is supplied; when no document is present (or it is the empty
  string), the message has no attachments.
\<close>

theorem sendPostmarkEmail_attachment:
  assumes "truthy (POSTMARK_SERVER_API_TOKEN ev)"
  shows "map (\<lambda>r. Attachments (fr_body r)) (sent_emails (snd (sendPostmarkEmail pf ev params))) =
           [case sp_icsContent params of
              None \<Rightarrow> None
            | Some doc \<Rightarrow>
                if doc = [] then None
                else Some [\<lparr> Name = str ''invite.ics'',
                             Content = base64_encode (utf8_encode doc),
                             ContentType =
                               str ''text/calendar; method=''
                               @ method_name (case sp_icsMethod params of
                                                None \<Rightarrow> REQUEST | Some m \<Rightarrow> m)
                               @ str ''; charset='' @ [0x22] @ str ''utf-8'' @ [0x22] \<rparr>]]"
  using assms
  by (simp add: sendPostmarkEmail_sent postmark_message_of_def postmark_attachments_def
      calendar_content_type_def truthy_def Let_def split: option.splits)

theorem sendPostmarkEmail_attachment_witness:
  "truthy (POSTMARK_SERVER_API_TOKEN sample_env)
   \<and> map (\<lambda>r. Attachments (fr_body r))
         (sent_emails (snd (sendPostmarkEmail (sample_platform None built_ok answered_ok)
                              sample_env (sample_email (Some (str ''BEGIN'')) None))))
       = [Some [\<lparr> Name = str ''invite.ics'', Content = str ''QkVHSU4='',
                   ContentType = str ''text/calendar; method=REQUEST; charset=''
                                 @ [0x22] @ str ''utf-8'' @ [0x22] \<rparr>]]
   \<and> map (\<lambda>r. Attachments (fr_body r))
         (sent_emails (snd (sendPostmarkEmail (sample_platform None built_ok answered_ok)
                              sample_env (sample_email (Some (str ''BEGIN'')) (Some CANCEL)))))
       = [Some [\<lparr> Name = str ''invite.ics'', Content = str ''QkVHSU4='',
                   ContentType = str ''text/calendar; method=CANCEL; charset=''
                                 @ [0x22] @ str ''utf-8'' @ [0x22] \<rparr>]]
   \<and> map (\<lambda>r. Attachments (fr_body r))
         (sent_emails (snd (sendPostmarkEmail (sample_platform None built_ok answered_ok)
                              sample_env (sample_email None None))))
       = [None]"
proof -
  have h: "truthy (POSTMARK_SERVER_API_TOKEN sample_env)"
    by (simp add: sample_env_def truthy_def str_def)
  have e: "base64_encode (utf8_encode (str ''BEGIN'')) = str ''QkVHSU4=''"
    by (simp add: str_def utf8_unit_def is_surrogate_def is_high_surrogate_def
        is_low_surrogate_def utf8_cp_def base64_digit_def)
  have n: "str ''BEGIN'' \<noteq> []" by (simp add: str_def)
  show ?thesis
    using h e n
      sendPostmarkEmail_attachment [OF h, of "sample_platform None built_ok answered_ok"
        "sample_email (Some (str ''BEGIN'')) None"]
      sendPostmarkEmail_attachment [OF h, of "sample_platform None built_ok answered_ok"
        "sample_email (Some (str ''BEGIN'')) (Some CANCEL)"]
      sendPostmarkEmail_attachment [OF h, of "sample_platform None built_ok answered_ok"
        "sample_email None None"]
    by (simp add: sample_email_def str_def)
qed



text \<open>
  C10. For every well-formed string \<open>text\<close> (one without unpaired surrogates) and
  every key whose base64 decoding is exactly 32 bytes, with a cipher that decryption
  inverts and a 16-byte initialisation vector, \<open>symmetricEncrypt\<close> returns a text that
  \<open>symmetricDecrypt\<close> under the same key turns back into \<open>text\<close>. For every key whose
  base64 decoding is not 32 bytes, both functions throw the invalid key length error.
\<close>

theorem encrypt_decrypt_roundtrip:
  "(cipher_inverts cp \<and> length (base64_decode cp key) = 32
      \<and> length (randomBytes cp IV_LENGTH) = 16 \<and> well_formed text \<longrightarrow>
      (\<exists>enc. symmetricEncrypt cp text key = Inr enc \<and> symmetricDecrypt cp enc key = Inr text))
   \<and> (length (base64_decode cp key) \<noteq> 32 \<longrightarrow>
        symmetricEncrypt cp text key = Inl (invalid_key_length (length (base64_decode cp key)))
        \<and> symmetricDecrypt cp text key
            = Inl (invalid_key_length (length (base64_decode cp key))))"
proof (intro conjI impI)
  assume a: "cipher_inverts cp \<and> length (base64_decode cp key) = 32
      \<and> length (randomBytes cp IV_LENGTH) = 16 \<and> well_formed text"
  define k where "k = base64_decode cp key"
  define iv where "iv = randomBytes cp IV_LENGTH"
  have l: "length k = 32" "length iv = 16" using a by (simp_all add: k_def iv_def)
  obtain c where c: "cipher cp k iv (utf8_encode text) = Inr c"
    "decipher cp k iv c = Inr (utf8_encode text)"
    using a l unfolding cipher_inverts_def by blast
  have e: "symmetricEncrypt cp text key = Inr (hex_encode iv @ str '':'' @ hex_encode c)"
    using l c(1) by (simp add: symmetricEncrypt_def Let_def k_def [symmetric] iv_def [symmetric])
  have r: "utf8_to_string (utf8_encode text) = text" using a by (simp add: utf8_roundtrip)
  have d: "symmetricDecrypt cp (hex_encode iv @ str '':'' @ hex_encode c) key = Inr text"
    using l c(2) r
    by (simp add: symmetricDecrypt_def Let_def k_def [symmetric] split_encrypted join_split
        hex_decode_encode hex_encode_length)
  from e d
  show "\<exists>enc. symmetricEncrypt cp text key = Inr enc \<and> symmetricDecrypt cp enc key = Inr text"
    by blast
next
  assume "length (base64_decode cp key) \<noteq> 32"
  then show "symmetricEncrypt cp text key
       = Inl (invalid_key_length (length (base64_decode cp key)))"
    "symmetricDecrypt cp text key = Inl (invalid_key_length (length (base64_decode cp key)))"
    by (simp_all add: symmetricEncrypt_def symmetricDecrypt_def Let_def)
qed

theorem encrypt_decrypt_roundtrip_witness:
  "cipher_inverts sample_crypto \<and> length (base64_decode sample_crypto sample_key) = 32
   \<and> length (randomBytes sample_crypto IV_LENGTH) = 16 \<and> well_formed (str ''secret'')
   \<and> symmetricEncrypt sample_crypto (str ''secret'') sample_key
       = Inr (str ''2a2a2a2a2a2a2a2a2a2a2a2a2a2a2a2a:746572636573'')
   \<and> symmetricDecrypt sample_crypto (str ''2a2a2a2a2a2a2a2a2a2a2a2a2a2a2a2a:746572636573'')
        sample_key = Inr (str ''secret'')
   \<and> symmetricEncrypt sample_crypto (str ''secret'') (str ''short'')
       = Inl (Error (str ''Invalid key length: expected 32 bytes, got 0''))
   \<and> symmetricDecrypt sample_crypto (str ''secret'') (str ''short'')
       = Inl (Error (str ''Invalid key length: expected 32 bytes, got 0''))"
proof -
  have k: "length (base64_decode sample_crypto sample_key) = 32"
    "length (randomBytes sample_crypto IV_LENGTH) = 16"
    by (simp_all add: sample_crypto_def IV_LENGTH_def)
  have w: "well_formed (str ''secret'')"
    by (simp add: str_def is_surrogate_def is_high_surrogate_def is_low_surrogate_def)
  have e: "symmetricEncrypt sample_crypto (str ''secret'') sample_key
       = Inr (str ''2a2a2a2a2a2a2a2a2a2a2a2a2a2a2a2a:746572636573'')"
    by (simp add: symmetricEncrypt_def sample_crypto_def IV_LENGTH_def Let_def str_def
        hex_encode_def hex_digit_def utf8_unit_def utf8_cp_def is_surrogate_def
        is_high_surrogate_def is_low_surrogate_def replicate_16)
  have s: "length (base64_decode sample_crypto (str ''short'')) \<noteq> 32"
    by (simp add: sample_crypto_def sample_key_def str_def)
  have z: "invalid_key_length (length (base64_decode sample_crypto (str ''short'')))
            = Error (str ''Invalid key length: expected 32 bytes, got 0'')"
    by (simp add: sample_crypto_def sample_key_def invalid_key_length_def String_number_def
        str_def)
  show ?thesis
    using encrypt_decrypt_roundtrip [of sample_crypto sample_key "str ''secret''"]
      encrypt_decrypt_roundtrip [of sample_crypto "str ''short''" "str ''secret''"]
      sample_crypto_inverts k w e s z
    by auto
qed

theorem lone_surrogate_counterexample:
  "symmetricEncrypt sample_crypto [0xD800] sample_key
     = Inr (str ''2a2a2a2a2a2a2a2a2a2a2a2a2a2a2a2a:bdbfef'')
   \<and> symmetricDecrypt sample_crypto (str ''2a2a2a2a2a2a2a2a2a2a2a2a2a2a2a2a:bdbfef'') sample_key
     = Inr [0xFFFD]"
  by (simp add: symmetricEncrypt_def symmetricDecrypt_def sample_crypto_def IV_LENGTH_def
      Let_def str_def hex_encode_def hex_digit_def hex_val_def utf8_unit_def utf8_cp_def
      is_surrogate_def is_high_surrogate_def is_low_surrogate_def utf8_to_string_def
      utf16_cp_def is_cont_def second_ok_def replicate_16)

end
